theory Spec2Isabelle
  imports Complex_Main
begin

section \<open>Python and NumPy conventions\<close>

text \<open>
  Floating-point numbers of the program are modelled as \<^typ>\<open>real\<close>, NumPy arrays as
  lists. An exception raised by the program is a value \<open>Inl e\<close> of a sum type.
  NumPy reports an out-of-range index together with the size of the array; the
  error keeps both.
\<close>

datatype py_error = IndexError int nat | ValueError | ZeroDivisionError

text \<open>
  Resolving an index against an array of \<open>n\<close> entries: \<open>0\<close> to \<open>n - 1\<close>
  address the entries from the front, \<open>- 1\<close> down to \<open>- n\<close> from the back, and
  every other index is refused.
\<close>

definition np_index :: "nat \<Rightarrow> int \<Rightarrow> nat option" where
  "np_index n i =
     (if 0 \<le> i \<and> i < int n then Some (nat i)
      else if - int n \<le> i \<and> i < 0 then Some (nat (int n + i))
      else None)"

text \<open>The read \<open>a[i]\<close> and the write \<open>a[i] = v\<close>.\<close>

definition np_get :: "'a list \<Rightarrow> int \<Rightarrow> py_error + 'a" where
  "np_get xs i =
     (case np_index (length xs) i of
        None \<Rightarrow> Inl (IndexError i (length xs))
      | Some j \<Rightarrow> Inr (xs ! j))"

definition np_set :: "'a list \<Rightarrow> int \<Rightarrow> 'a \<Rightarrow> py_error + 'a list" where
  "np_set xs i v =
     (case np_index (length xs) i of
        None \<Rightarrow> Inl (IndexError i (length xs))
      | Some j \<Rightarrow> Inr (xs[j := v]))"

text \<open>\<open>range(start, stop, 2)\<close> for non-negative bounds.\<close>

definition range_step2 :: "nat \<Rightarrow> nat list" where
  "range_step2 stop = filter even [0..<stop]"

section \<open>anh_osc_diag.py: the scan for removed eigenvalues\<close>

text \<open>
  The \<open>while\<close> loop of \<open>anharmonic_oscillator_diag\<close> (lines 332 to 340).
  \<open>energy_eigenvalues\<close> is what \<open>LA.eigh\<close> returns for the
  \<open>n_hamiltonian \<times> n_hamiltonian\<close> matrix, so \<open>n_hamiltonian\<close> is its length.
  The loop has three outcomes per round: a negative eigenvalue is recorded and the
  index advances; an eigenvalue above \<open>1e-5\<close> leaves the loop; any other
  eigenvalue changes nothing and the loop goes round again. The result \<open>None\<close>
  stands for a loop that never returns.
\<close>

partial_function (option) removal_loop ::
  "real list \<Rightarrow> nat \<Rightarrow> nat list \<Rightarrow> (nat \<times> nat list) option" where
  "removal_loop energy_eigenvalues i_removal indices_removed =
     (if i_removal < length energy_eigenvalues then
        (if energy_eigenvalues ! i_removal < 0 then
           removal_loop energy_eigenvalues (i_removal + 1) (indices_removed @ [i_removal])
         else if energy_eigenvalues ! i_removal > 1 / 100000 then
           Some (i_removal, indices_removed)
         else removal_loop energy_eigenvalues i_removal indices_removed)
      else Some (i_removal, indices_removed))"

definition removed_indices :: "real list \<Rightarrow> (nat \<times> nat list) option" where
  "removed_indices energy_eigenvalues = removal_loop energy_eigenvalues 0 []"

text \<open>The first eigenvalue at or after index \<open>i\<close> that is not negative, if there is one.\<close>

definition first_non_negative :: "real list \<Rightarrow> nat \<Rightarrow> real option" where
  "first_non_negative energy_eigenvalues i =
     (case dropWhile (\<lambda>e. e < 0) (drop i energy_eigenvalues) of
        [] \<Rightarrow> None
      | e # _ \<Rightarrow> Some e)"

text \<open>The loop stalls at index \<open>i\<close>: neither branch of the body applies.\<close>

definition scan_stalls :: "real list \<Rightarrow> nat \<Rightarrow> bool" where
  "scan_stalls energy_eigenvalues i \<longleftrightarrow>
     i < length energy_eigenvalues \<and> 0 \<le> energy_eigenvalues ! i
       \<and> energy_eigenvalues ! i \<le> 1 / 100000"

section \<open>random_instanton_monte_carlo.py: the nearest-neighbour histogram\<close>

text \<open>
  The loop of lines 49 to 58 over the centers returned by the sampling step.
  \<open>period\<close> is \<open>n_lattice * ip.dtau\<close>. The reads happen in the order of the
  source: \<open>zero_m\<close> first, then \<open>tau_centers_ia[i+1]\<close>, then \<open>tau_centers_ia[i]\<close>.
  The lines written to \<open>zcr_hist.txt\<close> are collected in \<open>out\<close>.
\<close>

fun zcr_hist_loop :: "real list \<Rightarrow> real \<Rightarrow> nat list \<Rightarrow> real list \<Rightarrow> py_error + real list" where
  "zcr_hist_loop tau_centers_ia period [] out = Inr out"
| "zcr_hist_loop tau_centers_ia period (i # rest) out =
     (case (if i = 0
            then (case np_get tau_centers_ia (- 1) of
                    Inl e \<Rightarrow> Inl e
                  | Inr t \<Rightarrow> Inr (t - period))
            else np_get tau_centers_ia (int i - 1)) of
        Inl e \<Rightarrow> Inl e
      | Inr zero_m \<Rightarrow>
          (case np_get tau_centers_ia (int i + 1) of
             Inl e \<Rightarrow> Inl e
           | Inr t_next \<Rightarrow>
               (case np_get tau_centers_ia (int i) of
                  Inl e \<Rightarrow> Inl e
                | Inr t_i \<Rightarrow>
                    zcr_hist_loop tau_centers_ia period rest
                      (out @ [min (t_next - t_i) (t_i - zero_m)]))))"

definition zcr_hist :: "real list \<Rightarrow> real \<Rightarrow> real list \<Rightarrow> py_error + real list" where
  "zcr_hist tau_centers_ia period out =
     zcr_hist_loop tau_centers_ia period (range_step2 (length tau_centers_ia)) out"

section \<open>The instanton-liquid drivers\<close>

text \<open>
  The module \<open>input_parameters\<close> (imported as \<open>ip\<close>) is not among the sources;
  the values the drivers read from it are the fields of a record.
\<close>

record input_parameters =
  x_potential_minimum :: real
  dtau :: real
  action_0 :: real






text \<open>
  The sampling steps \<open>rilm_monte_carlo_step\<close> and \<open>rilm_heated_monte_carlo_step\<close> of
  \<open>utility_rilm\<close> are not among the sources. They are parameters of the drivers: a
  step receives the arguments of the call, the two correlation arrays it updates in
  place and the state of the random generator, and gives back the centers it
  returns, the updated arrays and the new generator state.
\<close>

type_synonym 'r rilm_step =
  "int \<Rightarrow> int \<Rightarrow> int \<Rightarrow> real list \<Rightarrow> real list list \<Rightarrow> real list list \<Rightarrow> 'r
     \<Rightarrow> real list \<times> real list list \<times> real list list \<times> 'r"

type_synonym 'r rilm_heated_step =
  "int \<Rightarrow> int \<Rightarrow> int \<Rightarrow> int \<Rightarrow> real list \<Rightarrow> real list list \<Rightarrow> real list list \<Rightarrow> 'r
     \<Rightarrow> real list list \<times> real list list \<times> 'r"

record 'r rilm_state =
  x_cor_sums :: "real list list"
  x2_cor_sums :: "real list list"
  hist_file :: "real list"
  rng :: 'r

text \<open>
  The sweep loop of \<open>random_instanton_liquid_model\<close> (lines 40 to 58). Next to the
  program state the loop keeps \<open>calls\<close>: for every call of the sampling step so
  far, the first argument passed and the number of centers returned. It is kept
  when the histogram loop raises.
\<close>

fun rilm_sweep_loop ::
  "'r rilm_step \<Rightarrow> int \<Rightarrow> int \<Rightarrow> int \<Rightarrow> real list \<Rightarrow> real \<Rightarrow> nat list
     \<Rightarrow> (int \<times> nat) list \<Rightarrow> 'r rilm_state
     \<Rightarrow> (int \<times> nat) list \<times> (py_error + 'r rilm_state)" where
  "rilm_sweep_loop step n_ia n_points n_meas tau_array period [] calls st = (calls, Inr st)"
| "rilm_sweep_loop step n_ia n_points n_meas tau_array period (i_mc # rest) calls st =
     (case step n_ia n_points n_meas tau_array (x_cor_sums st) (x2_cor_sums st) (rng st) of
        (tau_centers_ia, xs, x2s, g) \<Rightarrow>
          (case zcr_hist tau_centers_ia period (hist_file st) of
             Inl e \<Rightarrow> (calls @ [(n_ia, length tau_centers_ia)], Inl e)
           | Inr lines \<Rightarrow>
               rilm_sweep_loop step n_ia n_points n_meas tau_array period rest
                 (calls @ [(n_ia, length tau_centers_ia)])
                 (st\<lparr>x_cor_sums := xs, x2_cor_sums := x2s, hist_file := lines, rng := g\<rparr>)))"


text \<open>The sweep loop of \<open>random_instanton_liquid_model_heating\<close> (lines 37 to 46).\<close>

fun rilm_heating_sweep_loop ::
  "'r rilm_heated_step \<Rightarrow> int \<Rightarrow> int \<Rightarrow> int \<Rightarrow> int \<Rightarrow> real list \<Rightarrow> nat list
     \<Rightarrow> int list \<Rightarrow> 'r rilm_state \<Rightarrow> int list \<times> (py_error + 'r rilm_state)" where
  "rilm_heating_sweep_loop step n_ia n_heating n_points n_meas tau_array [] calls st =
     (calls, Inr st)"
| "rilm_heating_sweep_loop step n_ia n_heating n_points n_meas tau_array (i_mc # rest) calls st =
     (case step n_ia n_heating n_points n_meas tau_array
             (x_cor_sums st) (x2_cor_sums st) (rng st) of
        (xs, x2s, g) \<Rightarrow>
          rilm_heating_sweep_loop step n_ia n_heating n_points n_meas tau_array rest
            (calls @ [n_ia]) (st\<lparr>x_cor_sums := xs, x2_cor_sums := x2s, rng := g\<rparr>))"


section \<open>streamline_iilm.py: the streamline solver\<close>

text \<open>Running one fallible step after another: the first exception ends the run.\<close>

definition py_then :: "'e + 'a \<Rightarrow> ('a \<Rightarrow> 'e + 'b) \<Rightarrow> 'e + 'b" where
  "py_then m f = (case m of Inl e \<Rightarrow> Inl e | Inr v \<Rightarrow> f v)"

text \<open>
  The functions of \<open>utility_monte_carlo\<close> (imported as \<open>mc\<close>) are not among the
  sources. They are the fields of a record that the drivers take as a parameter.
  A function that updates its array argument in place returns the new array, and
  one that draws random numbers takes and returns the state \<open>'r\<close> of the generator.
  A function that reads the module \<open>ip\<close> takes the parameters as an argument.
\<close>

record 'r utility_monte_carlo =
  initialize_lattice :: "int \<Rightarrow> bool \<Rightarrow> 'r \<Rightarrow> real list \<times> 'r"
  metropolis_question :: "input_parameters \<Rightarrow> real list \<Rightarrow> 'r \<Rightarrow> real list \<times> 'r"
  configuration_cooling :: "input_parameters \<Rightarrow> real list \<Rightarrow> real \<Rightarrow> 'r \<Rightarrow> real list \<times> 'r"
  find_instantons :: "real list \<Rightarrow> int \<Rightarrow> real \<Rightarrow> nat \<times> nat \<times> real list \<times> real list"
  return_action :: "input_parameters \<Rightarrow> real list \<Rightarrow> real"

text \<open>
  Lines 77 to 80: the ansatz configuration gets two copies of its first entry in
  front, its last entry is overwritten with the one before it, and a copy of that
  is appended.
\<close>

definition pad_ghosts :: "real list \<Rightarrow> py_error + real list" where
  "pad_ghosts x_config =
     py_then (np_get x_config 0) (\<lambda>first.
     py_then (np_get (first # x_config) 0) (\<lambda>first'.
     py_then (np_get (first' # first # x_config) (- 2)) (\<lambda>before_last.
     py_then (np_set (first' # first # x_config) (- 1) before_last) (\<lambda>x_config'.
     py_then (np_get x_config' (- 1)) (\<lambda>last.
     Inr (x_config' @ [last]))))))"

text \<open>
  Lines 100 to 114: the derivative of the action at the sites \<open>i_pos\<close>, written to
  \<open>lambda_derivative[i_pos - 2]\<close>. The five reads are in the order of the source.
\<close>

fun gradient_loop ::
  "input_parameters \<Rightarrow> real list \<Rightarrow> nat list \<Rightarrow> real list \<Rightarrow> py_error + real list" where
  "gradient_loop ip x_config [] lambda_derivative = Inr lambda_derivative"
| "gradient_loop ip x_config (i_pos # rest) lambda_derivative =
     py_then (np_get x_config (int i_pos + 2)) (\<lambda>x_p2.
     py_then (np_get x_config (int i_pos + 1)) (\<lambda>x_p1.
     py_then (np_get x_config (int i_pos)) (\<lambda>x_0.
     py_then (np_get x_config (int i_pos - 1)) (\<lambda>x_m1.
     py_then (np_get x_config (int i_pos - 2)) (\<lambda>x_m2.
       (let der_2 = (- x_p2 + 16 * x_p1 - 30 * x_0 + 16 * x_m1 - x_m2)
                      / (12 * dtau ip * dtau ip)
        in py_then (np_set lambda_derivative (int i_pos - 2)
                      (- der_2 / 2 + 4 * x_0
                         * (x_0 * x_0 - x_potential_minimum ip * x_potential_minimum ip)))
             (\<lambda>lambda_derivative'.
                gradient_loop ip x_config rest lambda_derivative')))))))"

text \<open>Lines 116 and 117: the descent step at the sites \<open>i_pos\<close>.\<close>

fun update_loop :: "real \<Rightarrow> real list \<Rightarrow> nat list \<Rightarrow> real list \<Rightarrow> py_error + real list" where
  "update_loop stream_time_step lambda_derivative [] x_config = Inr x_config"
| "update_loop stream_time_step lambda_derivative (i_pos # rest) x_config =
     py_then (np_get x_config (int i_pos)) (\<lambda>x_0.
     py_then (np_get lambda_derivative (int i_pos - 2)) (\<lambda>l.
     py_then (np_set x_config (int i_pos) (x_0 + - l * stream_time_step)) (\<lambda>x_config'.
       update_loop stream_time_step lambda_derivative rest x_config')))"

text \<open>Lines 119 to 122: the ghost points take the value of the nearest site.\<close>

definition clamp_ghosts :: "real list \<Rightarrow> py_error + real list" where
  "clamp_ghosts x_config =
     py_then (np_get x_config 2) (\<lambda>v0.
     py_then (np_set x_config 0 v0) (\<lambda>x1.
     py_then (np_get x1 2) (\<lambda>v1.
     py_then (np_set x1 1 v1) (\<lambda>x2.
     py_then (np_get x2 (- 3)) (\<lambda>v2.
     py_then (np_set x2 (- 1) v2) (\<lambda>x3.
     py_then (np_get x3 (- 3)) (\<lambda>v3.
     np_set x3 (- 2) v3)))))))"

text \<open>Lines 124 to 127: the action density at the sites \<open>i\<close>.\<close>

fun action_density_loop ::
  "input_parameters \<Rightarrow> real list \<Rightarrow> nat list \<Rightarrow> real list \<Rightarrow> py_error + real list" where
  "action_density_loop ip x_config [] action_density = Inr action_density"
| "action_density_loop ip x_config (i # rest) action_density =
     py_then (np_get x_config (int i)) (\<lambda>x_0.
     py_then (np_get x_config (int i + 1)) (\<lambda>x_p1.
     py_then (np_get x_config (int i - 1)) (\<lambda>x_m1.
       (let v = (x_0 ^ 2 - x_potential_minimum ip ^ 2) ^ 2;
            k = (x_p1 - x_m1) / (2 * dtau ip)
        in py_then (np_set action_density (int i - 2) (k ^ 2 / 4 + v))
             (\<lambda>action_density'.
                action_density_loop ip x_config rest action_density')))))"

text \<open>The slices \<open>x[2:-1]\<close> and \<open>x[2:-2]\<close>; a slice never raises.\<close>

definition slice_2_m1 :: "'a list \<Rightarrow> 'a list" where
  "slice_2_m1 xs = drop 2 (take (length xs - 1) xs)"

definition slice_2_m2 :: "'a list \<Rightarrow> 'a list" where
  "slice_2_m2 xs = drop 2 (take (length xs - 2) xs)"

text \<open>
  Lines 135 to 144: what a step writes to \<open>delta_tau_ia.txt\<close> and to
  \<open>streamline_action_int.txt\<close>; the two files are the lists of the numbers
  written so far.
\<close>

definition record_step ::
  "nat \<Rightarrow> real \<Rightarrow> real \<Rightarrow> real list \<Rightarrow> real list \<Rightarrow> real list \<times> real list
     \<Rightarrow> real list \<times> real list" where
  "record_step i_s ansatz_action current_action pos_root neg_root writers =
     (if i_s > 60000 \<and> i_s mod 20 = 0 then
        (if length pos_root = 1 \<and> length neg_root = 1 then
           (let interactive_action = current_action - 2 * ansatz_action;
                tau_i_a = \<bar>pos_root ! 0 - neg_root ! 0\<bar>
            in (fst writers @ [tau_i_a],
                snd writers @ [interactive_action / ansatz_action]))
         else writers)
      else writers)"

record stream_state =
  x_config :: "real list"
  lambda_derivative :: "real list"
  action_density :: "real list"
  writers :: "real list \<times> real list"

text \<open>One round of the loop over \<open>i_s\<close> (lines 97 to 144).\<close>

definition streamline_step ::
  "'r utility_monte_carlo \<Rightarrow> input_parameters \<Rightarrow> real \<Rightarrow> int \<Rightarrow> real \<Rightarrow> nat
     \<Rightarrow> stream_state \<Rightarrow> py_error + stream_state" where
  "streamline_step mc ip stream_time_step n_lattice_half ansatz_action i_s st =
     py_then (gradient_loop ip (x_config st) [2..<nat (2 * n_lattice_half + 2)]
                (lambda_derivative st)) (\<lambda>lam.
     py_then (update_loop stream_time_step lam [2..<nat (2 * n_lattice_half + 2)]
                (x_config st)) (\<lambda>x1.
     py_then (clamp_ghosts x1) (\<lambda>x2.
     py_then (action_density_loop ip x2 [2..<nat (2 * n_lattice_half + 2)]
                (action_density st)) (\<lambda>dens.
       (let current_action = return_action mc ip (slice_2_m1 x2);
            roots = find_instantons mc (slice_2_m2 x2) (int (length x2) - 4) (dtau ip);
            pos_root = fst (snd (snd roots));
            neg_root = snd (snd (snd roots))
        in Inr \<lparr>x_config = x2, lambda_derivative = lam, action_density = dens,
                 writers = record_step i_s ansatz_action current_action pos_root neg_root
                             (writers st)\<rparr>)))))"


text \<open>\<open>np.zeros(n)\<close>.\<close>

definition np_zeros :: "int \<Rightarrow> py_error + real list" where
  "np_zeros n = (if n < 0 then Inl ValueError else Inr (replicate (nat n) 0))"


text \<open>The gradient of the action at site \<open>i\<close> of a configuration, as the claim writes it.\<close>

definition local_gradient :: "input_parameters \<Rightarrow> real list \<Rightarrow> nat \<Rightarrow> real" where
  "local_gradient ip x i =
     - 1 / 2 * ((- x ! (i + 2) + 16 * x ! (i + 1) - 30 * x ! i + 16 * x ! (i - 1) - x ! (i - 2))
                 / (12 * (dtau ip) ^ 2))
     + 4 * x ! i * ((x ! i) ^ 2 - (x_potential_minimum ip) ^ 2)"

section \<open>The statistical aggregator\<close>

text \<open>
  Modelled from the spec: \<open>stat_av_var\<close> of \<open>utility_monte_carlo\<close>, which is not
  among the sources. The spec (section 4.5) gives, for parallel sequences of
  per-bin sums and sums of squares over \<open>n_samples\<close> measurements, the mean
  \<open>sum / n_samples\<close> and the error
  \<open>sqrt(max(0, sumsq / n_samples - mean\<^sup>2) / n_samples)\<close>, and asks that a division
  by \<open>n_samples = 0\<close> fail loudly.
\<close>

definition stat_av_var :: "real list \<Rightarrow> real list \<Rightarrow> nat \<Rightarrow> py_error + real list \<times> real list" where
  "stat_av_var observable observable_sqrd n_samples =
     (if n_samples = 0 then Inl ZeroDivisionError
      else Inr (map (\<lambda>s. s / real n_samples) observable,
                map2 (\<lambda>s q. sqrt (max 0 (q / real n_samples - (s / real n_samples) ^ 2)
                                    / real n_samples))
                  observable observable_sqrd))"

section \<open>monte_carlo_ao_cooling_density.py: the cooled Monte Carlo driver\<close>

text \<open>
  The driver mutates NumPy arrays through functions of \<open>utility_monte_carlo\<close>, and
  \<open>np.copy\<close> makes a second array. The arrays passed to those functions live in a
  store, a list of arrays addressed by position; allocating appends to the store.
  The running sums are touched by the driver alone and are plain fields. The log
  records the diagnostic, every Metropolis sweep, every cooling sweep and every
  call of the aggregator with the sample count passed to it.
\<close>

datatype mc_event = Too_few_sweeps | Metropolis_sweep | Cooling_sweep | Aggregator_call nat

record 'r cooled_state =
  params :: input_parameters
  store :: "real list list"
  generator :: 'r
  n_cooling :: nat
  n_total_instantons_sum :: "int list"
  n2_total_instantons_sum :: "int list"
  action_cooling :: "real list"
  action2_cooling :: "real list"
  events :: "mc_event list"

text \<open>An exception leaves the driver together with the log written so far.\<close>

definition raise_with ::
  "mc_event list \<Rightarrow> py_error + 'a \<Rightarrow> (py_error \<times> mc_event list) + 'a" where
  "raise_with evs m = (case m of Inl e \<Rightarrow> Inl (e, evs) | Inr v \<Rightarrow> Inr v)"

text \<open>\<open>a[i] += v\<close>.\<close>

definition np_add_at :: "'a::plus list \<Rightarrow> int \<Rightarrow> 'a \<Rightarrow> py_error + 'a list" where
  "np_add_at xs i v = py_then (np_get xs i) (\<lambda>old. np_set xs i (old + v))"

text \<open>\<open>mc.metropolis_question(x_config)\<close> on the array at address \<open>x_addr\<close>.\<close>

definition metropolis_at :: "'r utility_monte_carlo \<Rightarrow> nat \<Rightarrow> 'r cooled_state \<Rightarrow> 'r cooled_state" where
  "metropolis_at mc x_addr st =
     (case metropolis_question mc (params st) (store st ! x_addr) (generator st) of
        (x', g') \<Rightarrow>
          st\<lparr>store := (store st)[x_addr := x'], generator := g',
             events := events st @ [Metropolis_sweep]\<rparr>)"

text \<open>Lines 58 and 59: the equilibration sweeps.\<close>

fun equilibration :: "'r utility_monte_carlo \<Rightarrow> nat \<Rightarrow> nat list \<Rightarrow> 'r cooled_state \<Rightarrow> 'r cooled_state" where
  "equilibration mc x_addr [] st = st"
| "equilibration mc x_addr (i_equil # rest) st =
     equilibration mc x_addr rest (metropolis_at mc x_addr st)"

text \<open>
  Lines 77 to 101: the cooling sweeps of one cooling event, on the array at
  address \<open>cold_addr\<close>.
\<close>

fun cooling_sweeps ::
  "'r utility_monte_carlo \<Rightarrow> int \<Rightarrow> nat \<Rightarrow> nat list \<Rightarrow> 'r cooled_state
     \<Rightarrow> (py_error \<times> mc_event list) + 'r cooled_state" where
  "cooling_sweeps mc n_lattice cold_addr [] st = Inr st"
| "cooling_sweeps mc n_lattice cold_addr (i_cooling # rest) st =
     (case configuration_cooling mc (params st) (store st ! cold_addr)
             (x_potential_minimum (params st)) (generator st) of
        (x', g') \<Rightarrow>
          (let st1 = st\<lparr>store := (store st)[cold_addr := x'], generator := g',
                          events := events st @ [Cooling_sweep]\<rparr>;
               found = find_instantons mc (store st1 ! cold_addr) n_lattice
                         (dtau (params st1));
               n_instantons = int (fst found);
               n_anti_instantons = int (fst (snd found));
               action_temp = return_action mc (params st1) (store st1 ! cold_addr)
           in py_then (raise_with (events st1)
                         (np_add_at (n_total_instantons_sum st1) (int i_cooling)
                            (n_instantons + n_anti_instantons))) (\<lambda>n_sum.
              py_then (raise_with (events st1)
                         (np_add_at (n2_total_instantons_sum st1) (int i_cooling)
                            ((n_instantons + n_anti_instantons) ^ 2))) (\<lambda>n2_sum.
              py_then (raise_with (events st1)
                         (np_add_at (action_cooling st1) (int i_cooling) action_temp))
                (\<lambda>act.
              py_then (raise_with (events st1)
                         (np_add_at (action2_cooling st1) (int i_cooling) (action_temp ^ 2)))
                (\<lambda>act2.
                cooling_sweeps mc n_lattice cold_addr rest
                  (st1\<lparr>n_total_instantons_sum := n_sum, n2_total_instantons_sum := n2_sum,
                       action_cooling := act, action2_cooling := act2\<rparr>)))))))"

text \<open>
  Lines 73 to 101: a cooling event. \<open>np.copy(x_config)\<close> allocates the array
  \<open>x_cold_config\<close> at the end of the store.
\<close>

definition cooling_event ::
  "'r utility_monte_carlo \<Rightarrow> int \<Rightarrow> int \<Rightarrow> nat \<Rightarrow> 'r cooled_state
     \<Rightarrow> (py_error \<times> mc_event list) + 'r cooled_state" where
  "cooling_event mc n_lattice n_cooling_sweeps x_addr st =
     (let cold_addr = length (store st);
          st1 = st\<lparr>store := store st @ [store st ! x_addr], n_cooling := n_cooling st + 1\<rparr>
      in cooling_sweeps mc n_lattice cold_addr [0..<nat n_cooling_sweeps] st1)"

text \<open>
  Lines 63 to 101: the sweeps after equilibration. The remainder
  \<open>i_mc % n_sweeps_btw_cooling\<close> of two Python integers raises when the divisor is
  zero, and is zero exactly when the divisor divides \<open>i_mc\<close>.
\<close>

fun production ::
  "'r utility_monte_carlo \<Rightarrow> int \<Rightarrow> int \<Rightarrow> int \<Rightarrow> nat \<Rightarrow> nat list \<Rightarrow> 'r cooled_state
     \<Rightarrow> (py_error \<times> mc_event list) + 'r cooled_state" where
  "production mc n_lattice n_sweeps_btw_cooling n_cooling_sweeps x_addr [] st = Inr st"
| "production mc n_lattice n_sweeps_btw_cooling n_cooling_sweeps x_addr (i_mc # rest) st =
     (let st1 = metropolis_at mc x_addr st
      in if n_sweeps_btw_cooling = 0 then Inl (ZeroDivisionError, events st1)
         else if int i_mc mod n_sweeps_btw_cooling = 0 then
           py_then (cooling_event mc n_lattice n_cooling_sweeps x_addr st1)
             (production mc n_lattice n_sweeps_btw_cooling n_cooling_sweeps x_addr rest)
         else production mc n_lattice n_sweeps_btw_cooling n_cooling_sweeps x_addr rest st1)"

text \<open>\<open>np.zeros(n, int)\<close>.\<close>

definition np_zeros_int :: "int \<Rightarrow> py_error + int list" where
  "np_zeros_int n = (if n < 0 then Inl ValueError else Inr (replicate (nat n) 0))"

text \<open>
  Lines 34 to 113: the body of the loop over \<open>i_minimum\<close> up to the two calls of the
  aggregator. The assignment to \<open>ip.x_potential_minimum\<close> changes the parameters
  for everything that follows. The array \<open>potential_minima\<close> only collects these
  values for a file and is not kept. What follows the aggregator in the source
  divides and scales the returned arrays with NumPy operations, which raise
  nothing, and writes them to files; it is left out.
\<close>

definition minimum_run ::
  "'r utility_monte_carlo \<Rightarrow> int \<Rightarrow> int \<Rightarrow> int \<Rightarrow> bool \<Rightarrow> int \<Rightarrow> int \<Rightarrow> nat
     \<Rightarrow> 'r cooled_state \<Rightarrow> (py_error \<times> mc_event list) + 'r cooled_state" where
  "minimum_run mc n_lattice n_equil n_mc_sweeps i_cold n_sweeps_btw_cooling n_cooling_sweeps
       i_minimum st =
     (let st0 = st\<lparr>n_cooling := 0,
                   params := (params st)\<lparr>x_potential_minimum := 14 / 10 + 1 / 10 * real i_minimum\<rparr>\<rparr>
      in case initialize_lattice mc n_lattice i_cold (generator st0) of
           (x0, g0) \<Rightarrow>
             (let x_addr = length (store st0);
                  st1 = st0\<lparr>store := store st0 @ [x0], generator := g0\<rparr>
              in py_then (raise_with (events st1) (np_zeros_int n_cooling_sweeps)) (\<lambda>zi.
                 py_then (raise_with (events st1) (np_zeros n_cooling_sweeps)) (\<lambda>zr.
                   (let st2 = st1\<lparr>n_total_instantons_sum := zi, n2_total_instantons_sum := zi,
                                   action_cooling := zr, action2_cooling := zr\<rparr>;
                        st3 = equilibration mc x_addr [0..<nat n_equil] st2
                    in py_then (production mc n_lattice n_sweeps_btw_cooling n_cooling_sweeps
                                  x_addr [0..<nat (n_mc_sweeps - n_equil)] st3) (\<lambda>st4.
                       (let st5 = st4\<lparr>events := events st4 @ [Aggregator_call (n_cooling st4)]\<rparr>
                        in py_then (raise_with (events st5)
                                      (stat_av_var (action_cooling st5) (action2_cooling st5)
                                         (n_cooling st5))) (\<lambda>action_stats.
                           (let st6 = st5\<lparr>events := events st5
                                                      @ [Aggregator_call (n_cooling st5)]\<rparr>
                            in py_then (raise_with (events st6)
                                          (stat_av_var
                                             (map real_of_int (n_total_instantons_sum st6))
                                             (map real_of_int (n2_total_instantons_sum st6))
                                             (n_cooling st6))) (\<lambda>n_stats.
                               Inr st6))))))))))"

fun minima_loop ::
  "'r utility_monte_carlo \<Rightarrow> int \<Rightarrow> int \<Rightarrow> int \<Rightarrow> bool \<Rightarrow> int \<Rightarrow> int \<Rightarrow> nat list
     \<Rightarrow> 'r cooled_state \<Rightarrow> (py_error \<times> mc_event list) + 'r cooled_state" where
  "minima_loop mc n_lattice n_equil n_mc_sweeps i_cold n_sweeps_btw_cooling n_cooling_sweeps
       [] st = Inr st"
| "minima_loop mc n_lattice n_equil n_mc_sweeps i_cold n_sweeps_btw_cooling n_cooling_sweeps
       (i_minimum # rest) st =
     py_then (minimum_run mc n_lattice n_equil n_mc_sweeps i_cold n_sweeps_btw_cooling
                n_cooling_sweeps i_minimum st)
       (minima_loop mc n_lattice n_equil n_mc_sweeps i_cold n_sweeps_btw_cooling
          n_cooling_sweeps rest)"

text \<open>
  \<open>cooled_monte_carlo_density\<close>: the value returned and the log, or the exception
  raised and the log up to it.
\<close>

definition cooled_monte_carlo_density ::
  "'r utility_monte_carlo \<Rightarrow> input_parameters \<Rightarrow> int \<Rightarrow> int \<Rightarrow> int \<Rightarrow> bool \<Rightarrow> int \<Rightarrow> int
     \<Rightarrow> int \<Rightarrow> 'r \<Rightarrow> (py_error \<times> mc_event list) + (int \<times> mc_event list)" where
  "cooled_monte_carlo_density mc ip n_lattice n_equil n_mc_sweeps i_cold n_sweeps_btw_cooling
       n_cooling_sweeps n_minima g =
     (if n_mc_sweeps < n_equil then Inr (1, [Too_few_sweeps])
      else
        py_then (raise_with [] (np_zeros n_minima)) (\<lambda>potential_minima.
        py_then (minima_loop mc n_lattice n_equil n_mc_sweeps i_cold n_sweeps_btw_cooling
                   n_cooling_sweeps [0..<nat n_minima]
                   \<lparr>params = ip, store = [], generator = g, n_cooling = 0,
                     n_total_instantons_sum = [], n2_total_instantons_sum = [],
                     action_cooling = [], action2_cooling = [], events = []\<rparr>) (\<lambda>st.
        Inr (0, events st))))"

text \<open>The sample counts passed to the aggregator, in the order of the calls.\<close>

fun aggregator_calls :: "mc_event list \<Rightarrow> nat list" where
  "aggregator_calls [] = []"
| "aggregator_calls (Aggregator_call k # evs) = k # aggregator_calls evs"
| "aggregator_calls (_ # evs) = aggregator_calls evs"

text \<open>The four running sums have one entry per cooling sweep.\<close>

definition sized :: "nat \<Rightarrow> 'r cooled_state \<Rightarrow> bool" where
  "sized n st \<longleftrightarrow>
     length (n_total_instantons_sum st) = n \<and> length (n2_total_instantons_sum st) = n
       \<and> length (action_cooling st) = n \<and> length (action2_cooling st) = n"

text \<open>
  A concrete instance of the functions of \<open>utility_monte_carlo\<close>, for evaluating the
  drivers on concrete inputs: a cold start, sweeps that leave the configuration as
  it is, no zero crossing and action zero.
\<close>

definition still_mc :: "unit utility_monte_carlo" where
  "still_mc =
     \<lparr>initialize_lattice = (\<lambda>n c r. (replicate (nat n + 1) 0, r)),
       metropolis_question = (\<lambda>ip x r. (x, r)),
       configuration_cooling = (\<lambda>ip x v r. (x, r)),
       find_instantons = (\<lambda>x n d. (0, 0, [], [])),
       return_action = (\<lambda>ip x. 0)\<rparr>"

text \<open>A second instance, whose cooling sweep halves every entry of the configuration.\<close>

definition halving_mc :: "unit utility_monte_carlo" where
  "halving_mc = still_mc\<lparr>configuration_cooling := (\<lambda>ip x v r. (map (\<lambda>y. y / 2) x, r))\<rparr>"

section \<open>Properties\<close>

subsection \<open>The eigenvalue scan\<close>

lemma removal_loop_Some_not_stuck:
  assumes "removal_loop evs i ind = Some y"
  shows "\<not> scan_stalls evs i"
proof (rule removal_loop.raw_induct
    [where P = "\<lambda>evs i ind y. \<not> scan_stalls evs i", OF _ assms])
  fix f :: "real list \<Rightarrow> nat \<Rightarrow> nat list \<Rightarrow> (nat \<times> nat list) option"
    and evs i ind y
  assume IH: "\<And>evs i ind y. f evs i ind = Some y \<Longrightarrow> \<not> scan_stalls evs i"
    and body: "(if i < length evs then
        (if evs ! i < 0 then f evs (i + 1) (ind @ [i])
         else if evs ! i > 1 / 100000 then Some (i, ind)
         else f evs i ind)
      else Some (i, ind)) = Some y"
  show "\<not> scan_stalls evs i"
  proof
    assume st: "scan_stalls evs i"
    with body have "f evs i ind = Some y"
      by (simp add: scan_stalls_def not_less [symmetric])
    from IH[OF this] st show False by simp
  qed
qed

lemma removal_loop_stuck:
  assumes "i < length evs" "\<not> evs ! i < 0" "\<not> evs ! i > 1 / 100000"
  shows "removal_loop evs i ind = None"
proof (cases "removal_loop evs i ind")
  case None
  then show ?thesis .
next
  case (Some y)
  from removal_loop_Some_not_stuck[OF this] assms show ?thesis
    by (simp add: scan_stalls_def)
qed

lemma first_non_negative_step:
  assumes "i < length evs"
  shows "first_non_negative evs i =
           (if evs ! i < 0 then first_non_negative evs (Suc i) else Some (evs ! i))"
proof -
  from assms have "drop i evs = evs ! i # drop (Suc i) evs"
    by (simp add: Cons_nth_drop_Suc)
  then show ?thesis by (simp add: first_non_negative_def)
qed

lemma first_non_negative_end:
  "length evs \<le> i \<Longrightarrow> first_non_negative evs i = None"
  by (simp add: first_non_negative_def)

lemma removal_loop_None_iff:
  "removal_loop evs i ind = None \<longleftrightarrow>
     (case first_non_negative evs i of None \<Rightarrow> False | Some e \<Rightarrow> e \<le> 1 / 100000)"
proof (induction "length evs - i" arbitrary: i ind)
  case 0
  then have "length evs \<le> i" by simp
  then show ?case
    by (simp add: first_non_negative_end removal_loop.simps)
next
  case (Suc k)
  then have i: "i < length evs" and k: "k = length evs - Suc i" by simp_all
  show ?case
  proof (cases "evs ! i < 0")
    case True
    then have "removal_loop evs i ind = removal_loop evs (Suc i) (ind @ [i])"
      using i by (subst removal_loop.simps) simp
    with Suc.hyps(1)[OF k] True i show ?thesis
      by (simp add: first_non_negative_step)
  next
    case False
    show ?thesis
    proof (cases "evs ! i > 1 / 100000")
      case True
      then have "removal_loop evs i ind = Some (i, ind)"
        using i False by (subst removal_loop.simps) simp
      with True False i show ?thesis
        by (simp add: first_non_negative_step)
    next
      case nb: False
      from removal_loop_stuck[OF i False nb] nb False i show ?thesis
        by (simp add: first_non_negative_step)
    qed
  qed
qed

lemma removed_indices_None_iff:
  "removed_indices evs = None \<longleftrightarrow>
     (case first_non_negative evs 0 of None \<Rightarrow> False | Some e \<Rightarrow> e \<le> 1 / 100000)"
  unfolding removed_indices_def by (rule removal_loop_None_iff)

subsection \<open>The nearest-neighbour histogram\<close>

lemma np_get_in_range:
  "i < length xs \<Longrightarrow> np_get xs (int i) = Inr (xs ! i)"
  by (simp add: np_get_def np_index_def)

lemma np_get_past_end:
  "length xs \<le> i \<Longrightarrow> np_get xs (int i) = Inl (IndexError (int i) (length xs))"
  by (simp add: np_get_def np_index_def)

lemma np_get_last:
  "xs \<noteq> [] \<Longrightarrow> np_get xs (- 1) = Inr (xs ! (length xs - 1))"
  by (cases xs) (simp_all add: np_get_def np_index_def)

lemma np_get_pred:
  assumes "0 < i" "i \<le> length xs"
  shows "np_get xs (int i - 1) = Inr (xs ! (i - 1))"
proof -
  from assms have "int i - 1 = int (i - 1)" "i - 1 < length xs" by simp_all
  then show ?thesis by (simp only: np_get_in_range)
qed

lemma zcr_hist_loop_append:
  "zcr_hist_loop tau p (is @ js) out =
     (case zcr_hist_loop tau p is out of
        Inl e \<Rightarrow> Inl e
      | Inr out' \<Rightarrow> zcr_hist_loop tau p js out')"
  by (induction "is" arbitrary: out) (auto split: sum.splits)

lemma zcr_hist_loop_in_range:
  assumes "\<forall>i \<in> set is. i + 1 < length tau"
  shows "\<exists>out'. zcr_hist_loop tau p is out = Inr out'"
  using assms
proof (induction "is" arbitrary: out)
  case Nil
  then show ?case by simp
next
  case (Cons i rest)
  then have i: "i + 1 < length tau" and r: "\<forall>j \<in> set rest. j + 1 < length tau"
    by simp_all
  from i have ne: "tau \<noteq> []" by auto
  have g1: "np_get tau (int i + 1) = Inr (tau ! (i + 1))"
    using np_get_in_range[OF i] by (simp add: add.commute)
  have g0: "np_get tau (int i) = Inr (tau ! i)"
    using i by (simp add: np_get_in_range)
  show ?case
  proof (cases "i = 0")
    case True
    with g1 g0 np_get_last[OF ne] Cons.IH[OF r] show ?thesis by simp
  next
    case False
    then have "np_get tau (int i - 1) = Inr (tau ! (i - 1))"
      using i by (intro np_get_pred) simp_all
    with False g1 g0 Cons.IH[OF r] show ?thesis by simp
  qed
qed

lemma range_step2_even_bound:
  assumes "even n" "i \<in> set (range_step2 n)"
  shows "i + 1 < n"
proof -
  from assms(2) have "even i" "i < n" by (simp_all add: range_step2_def)
  with assms(1) show ?thesis by presburger
qed

lemma range_step2_odd:
  assumes "odd n"
  shows "range_step2 n = range_step2 (n - 1) @ [n - 1]"
proof -
  from assms obtain m where n: "n = Suc m" and m: "even m"
    by (cases n) auto
  then show ?thesis by (simp add: range_step2_def)
qed

lemma zcr_hist_loop_next_fails:
  assumes "(if i = 0
            then (case np_get tau (- 1) of Inl e \<Rightarrow> Inl e | Inr t \<Rightarrow> Inr (t - p))
            else np_get tau (int i - 1)) = Inr z"
    and "np_get tau (int i + 1) = Inl err"
  shows "zcr_hist_loop tau p (i # rest) out = Inl err"
  by (simp only: zcr_hist_loop.simps assms sum.case)

lemma zcr_hist_even:
  assumes "even (length tau)"
  shows "\<exists>out'. zcr_hist tau p out = Inr out'"
  unfolding zcr_hist_def
  using zcr_hist_loop_in_range range_step2_even_bound[OF assms] by blast

lemma zcr_hist_odd:
  assumes "odd (length tau)"
  shows "zcr_hist tau p out = Inl (IndexError (int (length tau)) (length tau))"
proof -
  let ?n = "length tau"
  from assms have pos: "0 < ?n" by (cases tau) auto
  then have ne: "tau \<noteq> []" by simp
  from assms have ev: "even (?n - 1)" by simp
  have "\<forall>i \<in> set (range_step2 (?n - 1)). i + 1 < ?n"
    using range_step2_even_bound[OF ev] by fastforce
  from zcr_hist_loop_in_range[OF this] obtain out'
    where pre: "zcr_hist_loop tau p (range_step2 (?n - 1)) out = Inr out'"
    by blast
  have "\<exists>z. (if ?n - 1 = 0
            then (case np_get tau (- 1) of Inl e \<Rightarrow> Inl e | Inr t \<Rightarrow> Inr (t - p))
            else np_get tau (int (?n - 1) - 1)) = Inr z"
  proof (cases "?n - 1 = 0")
    case True
    with np_get_last[OF ne] show ?thesis by simp
  next
    case False
    then have "np_get tau (int (?n - 1) - 1) = Inr (tau ! (?n - 1 - 1))"
      by (intro np_get_pred) simp_all
    with False show ?thesis by (simp only: if_False) blast
  qed
  then obtain z where zero_m: "(if ?n - 1 = 0
            then (case np_get tau (- 1) of Inl e \<Rightarrow> Inl e | Inr t \<Rightarrow> Inr (t - p))
            else np_get tau (int (?n - 1) - 1)) = Inr z" ..
  have "int (?n - 1) + 1 = int ?n" using ne by (cases tau) simp_all
  then have past: "np_get tau (int (?n - 1) + 1) = Inl (IndexError (int ?n) ?n)"
    using np_get_past_end[of tau ?n] by (simp only: order_refl)
  have last: "zcr_hist_loop tau p [?n - 1] out' = Inl (IndexError (int ?n) ?n)"
    by (rule zcr_hist_loop_next_fails[OF zero_m past])
  show ?thesis
    by (simp only: zcr_hist_def range_step2_odd[OF assms] zcr_hist_loop_append pre last
        sum.case)
qed

subsection \<open>The instanton count of the drivers\<close>




lemma rilm_sweep_loop_odd_raises:
  assumes "\<And>n p m t xs x2s r. length (fst (step n p m t xs x2s r)) = nat n"
    and "odd n_ia" and "0 < n_ia"
  shows "snd (rilm_sweep_loop step n_ia n_points n_meas tau_array period (i_mc # rest) calls st)
           = Inl (IndexError n_ia (nat n_ia))"
proof -
  obtain tau xs x2s g where
    step: "step n_ia n_points n_meas tau_array (x_cor_sums st) (x2_cor_sums st) (rng st)
             = (tau, xs, x2s, g)"
    by (cases "step n_ia n_points n_meas tau_array (x_cor_sums st) (x2_cor_sums st) (rng st)")
      auto
  from assms(1)[of n_ia n_points n_meas tau_array "x_cor_sums st" "x2_cor_sums st" "rng st"]
    step
  have len: "length tau = nat n_ia" by simp
  with assms(2,3) have "odd (length tau)" by (simp add: even_nat_iff)
  from zcr_hist_odd[OF this, of period "hist_file st"] len assms(3)
  have "zcr_hist tau period (hist_file st) = Inl (IndexError n_ia (nat n_ia))" by simp
  with step show ?thesis by simp
qed


lemma rilm_heating_sweep_loop_returns:
  "\<exists>fin. snd (rilm_heating_sweep_loop step n_ia n_heating n_points n_meas tau_array sweeps
                calls st) = Inr fin"
proof (induction sweeps arbitrary: calls st)
  case Nil
  then show ?case by simp
next
  case (Cons i_mc rest)
  obtain xs x2s g where
    step: "step n_ia n_heating n_points n_meas tau_array (x_cor_sums st) (x2_cor_sums st)
             (rng st) = (xs, x2s, g)"
    by (cases "step n_ia n_heating n_points n_meas tau_array (x_cor_sums st) (x2_cor_sums st)
                 (rng st)") auto
  from Cons.IH[of "calls @ [n_ia]" "st\<lparr>x_cor_sums := xs, x2_cor_sums := x2s, rng := g\<rparr>"]
  show ?case by (simp add: step)
qed






lemma upt_small: "[0..<(2::nat)] = [0, 1]" "[0..<(1::nat)] = [0]"
  by (simp_all add: upt_rec)

subsection \<open>The streamline solver\<close>

lemma py_then_Inr [simp]: "py_then (Inr v) f = f v"
  by (simp add: py_then_def)

lemma py_then_Inl [simp]: "py_then (Inl e) f = Inl e"
  by (simp add: py_then_def)

lemma np_get_p2: "i + 2 < length xs \<Longrightarrow> np_get xs (int i + 2) = Inr (xs ! (i + 2))"
  using np_get_in_range[of "i + 2" xs] by (simp add: add.commute)

lemma np_get_p1: "i + 1 < length xs \<Longrightarrow> np_get xs (int i + 1) = Inr (xs ! (i + 1))"
  using np_get_in_range[of "i + 1" xs] by (simp add: add.commute)

lemma np_get_m2:
  assumes "2 \<le> i" "i < length xs + 2"
  shows "np_get xs (int i - 2) = Inr (xs ! (i - 2))"
proof -
  from assms have "int i - 2 = int (i - 2)" "i - 2 < length xs" by simp_all
  then show ?thesis by (simp only: np_get_in_range)
qed

lemma np_set_in_range: "i < length xs \<Longrightarrow> np_set xs (int i) v = Inr (xs[i := v])"
  by (simp add: np_set_def np_index_def)

lemma np_set_m2:
  assumes "2 \<le> i" "i < length xs + 2"
  shows "np_set xs (int i - 2) v = Inr (xs[i - 2 := v])"
proof -
  from assms have "int i - 2 = int (i - 2)" "i - 2 < length xs" by simp_all
  then show ?thesis by (simp only: np_set_in_range)
qed

lemma gradient_expression:
  "- ((a :: real) / (12 * d * d)) / 2 + 4 * x0 * (x0 * x0 - v * v)
     = - 1 / 2 * (a / (12 * d ^ 2)) + 4 * x0 * (x0 ^ 2 - v ^ 2)"
  by (simp add: power2_eq_square)

lemma gradient_loop_step:
  assumes "2 \<le> i" "i + 2 < length x" "i < length lam + 2"
  shows "gradient_loop ip x (i # rest) lam
           = gradient_loop ip x rest (lam[i - 2 := local_gradient ip x i])"
proof -
  from assms have r: "i + 1 < length x" "i < length x" "0 < i" "i \<le> length x"
    "i < length x + 2" by simp_all
  show ?thesis
    by (simp only: gradient_loop.simps np_get_p2[OF assms(2)] np_get_p1[OF r(1)]
        np_get_in_range[OF r(2)] np_get_pred[OF r(3) r(4)] np_get_m2[OF assms(1) r(5)]
        np_set_m2[OF assms(1) assms(3)] py_then_Inr Let_def gradient_expression
        local_gradient_def)
qed

lemma gradient_loop_upt:
  assumes "2 \<le> a" "b + 2 \<le> length x" "b \<le> length lam + 2"
  shows "\<exists>lam'. gradient_loop ip x [a..<b] lam = Inr lam' \<and> length lam' = length lam
           \<and> (\<forall>i. a \<le> i \<and> i < b \<longrightarrow> lam' ! (i - 2) = local_gradient ip x i)
           \<and> (\<forall>j. j + 2 < a \<or> b \<le> j + 2 \<longrightarrow> lam' ! j = lam ! j)"
  using assms
proof (induction "b - a" arbitrary: a lam)
  case 0
  then show ?case by simp
next
  case (Suc k)
  then have lt: "a < b" and k: "k = b - Suc a" by simp_all
  have upt: "[a..<b] = a # [Suc a..<b]" using lt by (simp add: upt_conv_Cons)
  let ?lam1 = "lam[a - 2 := local_gradient ip x a]"
  have step: "gradient_loop ip x [a..<b] lam = gradient_loop ip x [Suc a..<b] ?lam1"
    unfolding upt using Suc.prems lt by (intro gradient_loop_step) simp_all
  from Suc.hyps(1)[OF k, of ?lam1] Suc.prems
  obtain lam' where l: "gradient_loop ip x [Suc a..<b] ?lam1 = Inr lam'"
    "length lam' = length lam"
    "\<forall>i. Suc a \<le> i \<and> i < b \<longrightarrow> lam' ! (i - 2) = local_gradient ip x i"
    "\<forall>j. j + 2 < Suc a \<or> b \<le> j + 2 \<longrightarrow> lam' ! j = ?lam1 ! j"
    by auto
  have at_a: "lam' ! (a - 2) = local_gradient ip x a"
  proof -
    from Suc.prems lt have "a - 2 + 2 < Suc a" "a - 2 < length lam" by simp_all
    with l(4) show ?thesis by simp
  qed
  have inner: "\<forall>i. a \<le> i \<and> i < b \<longrightarrow> lam' ! (i - 2) = local_gradient ip x i"
  proof (intro allI impI)
    fix i assume "a \<le> i \<and> i < b"
    then show "lam' ! (i - 2) = local_gradient ip x i"
      using at_a l(3) by (cases "i = a") auto
  qed
  have outer: "\<forall>j. j + 2 < a \<or> b \<le> j + 2 \<longrightarrow> lam' ! j = lam ! j"
  proof (intro allI impI)
    fix j assume j: "j + 2 < a \<or> b \<le> j + 2"
    with lt Suc.prems(1) have "j + 2 < Suc a \<or> b \<le> j + 2" "j \<noteq> a - 2" by auto
    with l(4) have "lam' ! j = ?lam1 ! j" by blast
    with \<open>j \<noteq> a - 2\<close> show "lam' ! j = lam ! j" by simp
  qed
  from step l(1,2) inner outer show ?case by simp
qed

lemma update_loop_step:
  assumes "2 \<le> i" "i < length x" "i < length lam + 2"
  shows "update_loop dt lam (i # rest) x
           = update_loop dt lam rest (x[i := x ! i + - lam ! (i - 2) * dt])"
  by (simp only: update_loop.simps np_get_in_range[OF assms(2)]
      np_get_m2[OF assms(1) assms(3)] np_set_in_range[OF assms(2)] py_then_Inr)

lemma update_loop_upt:
  assumes "2 \<le> a" "b \<le> length x" "b \<le> length lam + 2"
  shows "\<exists>x'. update_loop dt lam [a..<b] x = Inr x' \<and> length x' = length x
           \<and> (\<forall>i. a \<le> i \<and> i < b \<longrightarrow> x' ! i = x ! i + - lam ! (i - 2) * dt)
           \<and> (\<forall>j. j < a \<or> b \<le> j \<longrightarrow> x' ! j = x ! j)"
  using assms
proof (induction "b - a" arbitrary: a x)
  case 0
  then show ?case by simp
next
  case (Suc k)
  then have lt: "a < b" and k: "k = b - Suc a" by simp_all
  have upt: "[a..<b] = a # [Suc a..<b]" using lt by (simp add: upt_conv_Cons)
  let ?x1 = "x[a := x ! a + - lam ! (a - 2) * dt]"
  have step: "update_loop dt lam [a..<b] x = update_loop dt lam [Suc a..<b] ?x1"
    unfolding upt using Suc.prems lt by (intro update_loop_step) simp_all
  from Suc.hyps(1)[OF k, of ?x1] Suc.prems
  obtain x' where l: "update_loop dt lam [Suc a..<b] ?x1 = Inr x'"
    "length x' = length x"
    "\<forall>i. Suc a \<le> i \<and> i < b \<longrightarrow> x' ! i = ?x1 ! i + - lam ! (i - 2) * dt"
    "\<forall>j. j < Suc a \<or> b \<le> j \<longrightarrow> x' ! j = ?x1 ! j"
    by auto
  have at_a: "x' ! a = x ! a + - lam ! (a - 2) * dt"
  proof -
    from Suc.prems lt have "a < Suc a" "a < length x" by simp_all
    with l(4) show ?thesis by simp
  qed
  have inner: "\<forall>i. a \<le> i \<and> i < b \<longrightarrow> x' ! i = x ! i + - lam ! (i - 2) * dt"
  proof (intro allI impI)
    fix i assume i: "a \<le> i \<and> i < b"
    show "x' ! i = x ! i + - lam ! (i - 2) * dt"
    proof (cases "i = a")
      case True
      with at_a show ?thesis by simp
    next
      case False
      with i have "Suc a \<le> i \<and> i < b" by simp
      with l(3) have "x' ! i = ?x1 ! i + - lam ! (i - 2) * dt" by blast
      with False show ?thesis by simp
    qed
  qed
  have outer: "\<forall>j. j < a \<or> b \<le> j \<longrightarrow> x' ! j = x ! j"
  proof (intro allI impI)
    fix j assume j: "j < a \<or> b \<le> j"
    with lt have "j < Suc a \<or> b \<le> j" "j \<noteq> a" by auto
    with l(4) have "x' ! j = ?x1 ! j" by blast
    with \<open>j \<noteq> a\<close> show "x' ! j = x ! j" by simp
  qed
  from step l(1,2) inner outer show ?case by simp
qed

lemma action_density_loop_step:
  assumes "2 \<le> i" "i + 1 < length x" "i < length dens + 2"
  shows "\<exists>v. action_density_loop ip x (i # rest) dens
           = action_density_loop ip x rest (dens[i - 2 := v])"
proof -
  from assms have r: "i < length x" "0 < i" "i \<le> length x" by simp_all
  show ?thesis
    by (simp only: action_density_loop.simps np_get_p1[OF assms(2)]
        np_get_in_range[OF r(1)] np_get_pred[OF r(2) r(3)]
        np_set_m2[OF assms(1) assms(3)] py_then_Inr Let_def) blast
qed

lemma action_density_loop_upt:
  assumes "2 \<le> a" "b + 1 \<le> length x" "b \<le> length dens + 2"
  shows "\<exists>dens'. action_density_loop ip x [a..<b] dens = Inr dens'
           \<and> length dens' = length dens"
  using assms
proof (induction "b - a" arbitrary: a dens)
  case 0
  then show ?case by simp
next
  case (Suc k)
  then have lt: "a < b" and k: "k = b - Suc a" by simp_all
  have upt: "[a..<b] = a # [Suc a..<b]" using lt by (simp add: upt_conv_Cons)
  from action_density_loop_step[of a x dens ip "[Suc a..<b]"] Suc.prems lt
  obtain v where step: "action_density_loop ip x (a # [Suc a..<b]) dens
      = action_density_loop ip x [Suc a..<b] (dens[a - 2 := v])"
    by auto
  from Suc.hyps(1)[OF k, of "dens[a - 2 := v]"] Suc.prems
  show ?case unfolding upt step by simp
qed

lemma clamp_ghosts_eq:
  assumes "5 \<le> length x"
  shows "clamp_ghosts x
           = Inr (x[0 := x ! 2, 1 := x ! 2, length x - 1 := x ! (length x - 3),
                    length x - 2 := x ! (length x - 3)])"
proof -
  let ?n = "length x"
  have i3: "np_index ?n (- 3) = Some (?n - 3)" "np_index ?n (- 1) = Some (?n - 1)"
    "np_index ?n (- 2) = Some (?n - 2)" "np_index ?n 2 = Some 2" "np_index ?n 0 = Some 0"
    "np_index ?n 1 = Some 1"
    using assms by (auto simp: np_index_def nat_diff_distrib')
  have ne: "?n - 3 \<noteq> 0" "?n - 3 \<noteq> 1" "?n - 3 \<noteq> ?n - 1" "?n - 3 < ?n"
    using assms by simp_all
  show ?thesis
    using ne by (simp add: clamp_ghosts_def np_get_def np_set_def i3)
qed

lemma pad_ghosts_eq:
  assumes "2 \<le> length a"
  shows "pad_ghosts a
           = Inr (a ! 0 # a ! 0 # a[length a - 1 := a ! (length a - 2)]
                    @ [a ! (length a - 2)])"
proof -
  let ?n = "length a"
  let ?v = "a ! (?n - 2)"
  have idx: "np_index ?n 0 = Some 0" "np_index (Suc ?n) 0 = Some 0"
    "np_index (Suc (Suc ?n)) (- 2) = Some ?n" "np_index (Suc (Suc ?n)) (- 1) = Some (Suc ?n)"
    using assms by (auto simp: np_index_def)
  obtain m where m: "?n = Suc (Suc m)" using assms
    by (metis Suc_le_D numeral_2_eq_2 Suc_le_mono)
  have f1: "(a ! 0 # a ! 0 # a) ! ?n = ?v" using m by simp
  have f2: "(a ! 0 # a ! 0 # a)[Suc ?n := ?v] = a ! 0 # a ! 0 # a[?n - 1 := ?v]"
    using m by simp
  have f3: "(a ! 0 # a ! 0 # a[?n - 1 := ?v]) ! Suc ?n = ?v" using m by simp
  have s1: "np_get a 0 = Inr (a ! 0)" by (simp add: np_get_def idx)
  have s2: "np_get (a ! 0 # a) 0 = Inr (a ! 0)" by (simp add: np_get_def idx)
  have s3: "np_get (a ! 0 # a ! 0 # a) (- 2) = Inr ?v"
    by (simp only: np_get_def length_Cons idx option.case f1)
  have s4: "np_set (a ! 0 # a ! 0 # a) (- 1) ?v = Inr (a ! 0 # a ! 0 # a[?n - 1 := ?v])"
    by (simp only: np_set_def length_Cons idx option.case f2)
  have s5: "np_get (a ! 0 # a ! 0 # a[?n - 1 := ?v]) (- 1) = Inr ?v"
    by (simp only: np_get_def length_Cons length_list_update idx option.case f3)
  show ?thesis
    by (simp only: pad_ghosts_def s1 s2 s3 s4 s5 py_then_Inr append_Cons)
qed

lemma gradient_loop_append:
  "gradient_loop ip x (as @ bs) lam
     = py_then (gradient_loop ip x as lam) (gradient_loop ip x bs)"
  by (induction as arbitrary: lam) (simp_all add: py_then_def Let_def split: sum.splits)

lemma gradient_loop_short_configuration:
  assumes "1 \<le> n" and "length x = 2 * n + 3" and "length lam = 2 * n"
  shows "gradient_loop ip x [2..<2 * n + 2] lam
           = Inl (IndexError (int (2 * n + 3)) (2 * n + 3))"
proof -
  have split: "[2..<2 * n + 2] = [2..<2 * n + 1] @ [2 * n + 1]" using assms(1) by simp
  from gradient_loop_upt[of 2 "2 * n + 1" x lam ip] assms
  obtain lam' where lam': "gradient_loop ip x [2..<2 * n + 1] lam = Inr lam'" by auto
  have "int (2 * n + 1) + 2 = int (2 * n + 3)" by simp
  then have "np_get x (int (2 * n + 1) + 2) = Inl (IndexError (int (2 * n + 3)) (2 * n + 3))"
    using np_get_past_end[of x "2 * n + 3"] assms(2) by (simp only: order_refl)
  then have last: "gradient_loop ip x [2 * n + 1] lam'
      = Inl (IndexError (int (2 * n + 3)) (2 * n + 3))"
    by (simp only: gradient_loop.simps py_then_Inl)
  show ?thesis
    by (simp only: split gradient_loop_append lam' py_then_Inr last)
qed

lemma unpadded_builder_raises:
  assumes "1 \<le> n" and "length a = 2 * n" and "length lam = 2 * n"
  shows "\<exists>c. pad_ghosts a = Inr c \<and> length c = 2 * n + 3
           \<and> gradient_loop ip c [2..<2 * n + 2] lam
               = Inl (IndexError (int (2 * n + 3)) (2 * n + 3))"
proof -
  let ?c = "a ! 0 # a ! 0 # a[length a - 1 := a ! (length a - 2)] @ [a ! (length a - 2)]"
  from assms have "2 \<le> length a" by simp
  from pad_ghosts_eq[OF this] have pad: "pad_ghosts a = Inr ?c" .
  have len: "length ?c = 2 * n + 3" using assms(2) by simp
  from gradient_loop_short_configuration[OF assms(1) len assms(3), of ip] pad len
  show ?thesis by blast
qed

lemma streamline_step_result:
  assumes n: "1 \<le> n"
    and lx: "length (x_config st) = 2 * n + 4"
    and ll: "length (lambda_derivative st) = 2 * n"
    and ld: "length (action_density st) = 2 * n"
  shows "\<exists>st'. streamline_step mc ip dt (int n) s0 i_s st = Inr st'
           \<and> length (x_config st') = 2 * n + 4
           \<and> length (lambda_derivative st') = 2 * n
           \<and> length (action_density st') = 2 * n
           \<and> (\<forall>i. 2 \<le> i \<and> i < 2 * n + 2 \<longrightarrow>
                 lambda_derivative st' ! (i - 2) = local_gradient ip (x_config st) i
                 \<and> x_config st' ! i
                     = x_config st ! i - local_gradient ip (x_config st) i * dt)
           \<and> x_config st' ! 0 = x_config st' ! 2
           \<and> x_config st' ! 1 = x_config st' ! 2
           \<and> x_config st' ! (2 * n + 2) = x_config st' ! (2 * n + 1)
           \<and> x_config st' ! (2 * n + 3) = x_config st' ! (2 * n + 1)
           \<and> writers st'
               = record_step i_s s0 (return_action mc ip (slice_2_m1 (x_config st')))
                   (fst (snd (snd (find_instantons mc (slice_2_m2 (x_config st'))
                                     (2 * int n) (dtau ip)))))
                   (snd (snd (snd (find_instantons mc (slice_2_m2 (x_config st'))
                                     (2 * int n) (dtau ip)))))
                   (writers st)"
proof -
  let ?x = "x_config st"
  have rng: "nat (2 * int n + 2) = 2 * n + 2" by simp
  from gradient_loop_upt[of 2 "2 * n + 2" ?x "lambda_derivative st" ip] lx ll
  obtain lam where lam: "gradient_loop ip ?x [2..<2 * n + 2] (lambda_derivative st) = Inr lam"
    "length lam = 2 * n"
    "\<forall>i. 2 \<le> i \<and> i < 2 * n + 2 \<longrightarrow> lam ! (i - 2) = local_gradient ip ?x i"
    by auto
  from update_loop_upt[of 2 "2 * n + 2" ?x lam dt] lx lam(2)
  obtain x1 where x1: "update_loop dt lam [2..<2 * n + 2] ?x = Inr x1"
    "length x1 = 2 * n + 4"
    "\<forall>i. 2 \<le> i \<and> i < 2 * n + 2 \<longrightarrow> x1 ! i = ?x ! i + - lam ! (i - 2) * dt"
    by auto
  let ?x2 = "x1[0 := x1 ! 2, 1 := x1 ! 2, length x1 - 1 := x1 ! (length x1 - 3),
                length x1 - 2 := x1 ! (length x1 - 3)]"
  have cl: "clamp_ghosts x1 = Inr ?x2"
    using x1(2) n by (intro clamp_ghosts_eq) simp
  have lx2: "length ?x2 = 2 * n + 4" using x1(2) by simp
  from action_density_loop_upt[of 2 "2 * n + 2" ?x2 "action_density st" ip] lx2 ld
  obtain dens where dens: "action_density_loop ip ?x2 [2..<2 * n + 2] (action_density st)
      = Inr dens" "length dens = 2 * n"
    by auto
  let ?st' = "\<lparr>x_config = ?x2, lambda_derivative = lam, action_density = dens,
      writers = record_step i_s s0 (return_action mc ip (slice_2_m1 ?x2))
                  (fst (snd (snd (find_instantons mc (slice_2_m2 ?x2)
                                    (int (length ?x2) - 4) (dtau ip)))))
                  (snd (snd (snd (find_instantons mc (slice_2_m2 ?x2)
                                    (int (length ?x2) - 4) (dtau ip)))))
                  (writers st)\<rparr>"
  have step: "streamline_step mc ip dt (int n) s0 i_s st = Inr ?st'"
    by (simp only: streamline_step_def rng lam(1) x1(1) cl dens(1) py_then_Inr Let_def)
  have len4: "int (length ?x2) - 4 = 2 * int n" using lx2 by simp
  have inner: "\<forall>i. 2 \<le> i \<and> i < 2 * n + 2 \<longrightarrow> ?x2 ! i = x1 ! i"
    using x1(2) by (auto simp: nth_list_update)
  have sites: "\<forall>i. 2 \<le> i \<and> i < 2 * n + 2 \<longrightarrow>
      lam ! (i - 2) = local_gradient ip ?x i
      \<and> ?x2 ! i = ?x ! i - local_gradient ip ?x i * dt"
  proof (intro allI impI)
    fix i assume i: "2 \<le> i \<and> i < 2 * n + 2"
    from lam(3) i have g: "lam ! (i - 2) = local_gradient ip ?x i" by blast
    from x1(3) i have "x1 ! i = ?x ! i + - lam ! (i - 2) * dt" by blast
    with inner i g show "lam ! (i - 2) = local_gradient ip ?x i
      \<and> ?x2 ! i = ?x ! i - local_gradient ip ?x i * dt" by simp
  qed
  have g0: "?x2 ! 0 = ?x2 ! 2" "?x2 ! 1 = ?x2 ! 2"
    using x1(2) n by (simp_all add: nth_list_update)
  have g1: "?x2 ! (2 * n + 2) = ?x2 ! (2 * n + 1)" "?x2 ! (2 * n + 3) = ?x2 ! (2 * n + 1)"
    using x1(2) n by (simp_all add: nth_list_update)
  show ?thesis
    apply (rule exI[of _ ?st'])
    apply (simp only: step stream_state.select_convs len4 lx2 lam(2) dens(2))
    using sites g0 g1 by simp
qed



subsection \<open>The statistical aggregator\<close>

lemma two_sample_error:
  "sqrt (max 0 ((a\<^sup>2 + b\<^sup>2) / 2 - ((a + b) / 2)\<^sup>2) / 2) = \<bar>a - b\<bar> / (2 * sqrt 2)"
proof -
  have e: "(a\<^sup>2 + b\<^sup>2) / 2 - ((a + b) / 2)\<^sup>2 = ((a - b) / 2)\<^sup>2"
    by (simp add: power2_eq_square field_simps)
  have "sqrt (max 0 (((a - b) / 2)\<^sup>2) / 2) = sqrt (((a - b) / 2)\<^sup>2 / 2)"
    by (simp add: max_def)
  also have "\<dots> = \<bar>(a - b) / 2\<bar> / sqrt 2"
    by (simp add: real_sqrt_divide)
  also have "\<dots> = \<bar>a - b\<bar> / (2 * sqrt 2)"
    by simp
  finally show ?thesis unfolding e .
qed

subsection \<open>The cooled Monte Carlo driver\<close>

lemma raise_with_Inr [simp]: "raise_with evs (Inr v) = Inr v"
  by (simp add: raise_with_def)

lemma raise_with_Inl [simp]: "raise_with evs (Inl e) = Inl (e, evs)"
  by (simp add: raise_with_def)

lemma aggregator_calls_append [simp]:
  "aggregator_calls (xs @ ys) = aggregator_calls xs @ aggregator_calls ys"
  by (induction xs rule: aggregator_calls.induct) simp_all

lemma np_add_at_in_range:
  "i < length xs \<Longrightarrow> np_add_at xs (int i) v = Inr (xs[i := xs ! i + v])"
  by (simp add: np_add_at_def np_get_in_range np_set_in_range)

lemma cooling_sweeps_frame:
  assumes "\<forall>i \<in> set sweeps. i < n" and "sized n st"
  shows "\<exists>st'. cooling_sweeps mc n_lattice cold_addr sweeps st = Inr st'
           \<and> sized n st' \<and> n_cooling st' = n_cooling st \<and> params st' = params st
           \<and> length (store st') = length (store st)
           \<and> (\<forall>a. a \<noteq> cold_addr \<longrightarrow> store st' ! a = store st ! a)
           \<and> aggregator_calls (events st') = aggregator_calls (events st)"
  using assms
proof (induction sweeps arbitrary: st)
  case Nil
  then show ?case by simp
next
  case (Cons i rest)
  obtain x' g' where cc: "configuration_cooling mc (params st) (store st ! cold_addr)
      (x_potential_minimum (params st)) (generator st) = (x', g')"
    by (cases "configuration_cooling mc (params st) (store st ! cold_addr)
      (x_potential_minimum (params st)) (generator st)") auto
  let ?st1 = "st\<lparr>store := (store st)[cold_addr := x'], generator := g',
                  events := events st @ [Cooling_sweep]\<rparr>"
  let ?found = "find_instantons mc (store ?st1 ! cold_addr) n_lattice (dtau (params ?st1))"
  let ?k = "int (fst ?found) + int (fst (snd ?found))"
  let ?a = "return_action mc (params ?st1) (store ?st1 ! cold_addr)"
  let ?st2 = "?st1\<lparr>n_total_instantons_sum :=
                     (n_total_instantons_sum st)[i := n_total_instantons_sum st ! i + ?k],
                   n2_total_instantons_sum :=
                     (n2_total_instantons_sum st)[i := n2_total_instantons_sum st ! i + ?k ^ 2],
                   action_cooling := (action_cooling st)[i := action_cooling st ! i + ?a],
                   action2_cooling :=
                     (action2_cooling st)[i := action2_cooling st ! i + ?a ^ 2]\<rparr>"
  from Cons.prems have i: "i < n" and rest: "\<forall>j \<in> set rest. j < n" by simp_all
  from Cons.prems(2) i have len: "i < length (n_total_instantons_sum st)"
    "i < length (n2_total_instantons_sum st)" "i < length (action_cooling st)"
    "i < length (action2_cooling st)"
    by (simp_all add: sized_def)
  have step: "cooling_sweeps mc n_lattice cold_addr (i # rest) st
      = cooling_sweeps mc n_lattice cold_addr rest ?st2"
    by (simp add: cc Let_def np_add_at_in_range len)
  have s2: "sized n ?st2" using Cons.prems(2) by (simp add: sized_def)
  from Cons.IH[OF rest s2]
  obtain st' where st': "cooling_sweeps mc n_lattice cold_addr rest ?st2 = Inr st'"
    "sized n st'" "n_cooling st' = n_cooling ?st2" "params st' = params ?st2"
    "length (store st') = length (store ?st2)"
    "\<forall>a. a \<noteq> cold_addr \<longrightarrow> store st' ! a = store ?st2 ! a"
    "aggregator_calls (events st') = aggregator_calls (events ?st2)"
    by blast
  show ?case
    apply (rule exI[of _ st'])
    using step st' by simp
qed

lemma cooling_event_frame:
  assumes "sized (nat n_cooling_sweeps) st"
  shows "\<exists>st'. cooling_event mc n_lattice n_cooling_sweeps x_addr st = Inr st'
           \<and> sized (nat n_cooling_sweeps) st' \<and> n_cooling st' = n_cooling st + 1
           \<and> params st' = params st
           \<and> length (store st') = length (store st) + 1
           \<and> (\<forall>a < length (store st). store st' ! a = store st ! a)
           \<and> aggregator_calls (events st') = aggregator_calls (events st)"
proof -
  let ?st1 = "st\<lparr>store := store st @ [store st ! x_addr], n_cooling := n_cooling st + 1\<rparr>"
  have s1: "sized (nat n_cooling_sweeps) ?st1" using assms by (simp add: sized_def)
  have r: "\<forall>i \<in> set [0..<nat n_cooling_sweeps]. i < nat n_cooling_sweeps" by simp
  from cooling_sweeps_frame[OF r s1, of mc n_lattice "length (store st)"]
  obtain st' where st': "cooling_sweeps mc n_lattice (length (store st))
      [0..<nat n_cooling_sweeps] ?st1 = Inr st'"
    "sized (nat n_cooling_sweeps) st'" "n_cooling st' = n_cooling ?st1"
    "params st' = params ?st1"
    "length (store st') = length (store ?st1)"
    "\<forall>a. a \<noteq> length (store st) \<longrightarrow> store st' ! a = store ?st1 ! a"
    "aggregator_calls (events st') = aggregator_calls (events ?st1)"
    by blast
  have old: "\<forall>a < length (store st). store st' ! a = store st ! a"
  proof (intro allI impI)
    fix a assume a: "a < length (store st)"
    then have "store st' ! a = store ?st1 ! a" using st'(6) by simp
    with a show "store st' ! a = store st ! a" by (simp add: nth_append)
  qed
  show ?thesis
    apply (rule exI[of _ st'])
    using st' old by (simp add: cooling_event_def Let_def)
qed

lemma metropolis_at_frame:
  "sized n (metropolis_at mc x_addr st) = sized n st
   \<and> n_cooling (metropolis_at mc x_addr st) = n_cooling st
   \<and> length (store (metropolis_at mc x_addr st)) = length (store st)
   \<and> aggregator_calls (events (metropolis_at mc x_addr st)) = aggregator_calls (events st)"
  by (cases "metropolis_question mc (params st) (store st ! x_addr) (generator st)")
    (simp add: metropolis_at_def sized_def)

lemma equilibration_frame:
  "sized n (equilibration mc x_addr sweeps st) = sized n st
   \<and> n_cooling (equilibration mc x_addr sweeps st) = n_cooling st
   \<and> length (store (equilibration mc x_addr sweeps st)) = length (store st)
   \<and> aggregator_calls (events (equilibration mc x_addr sweeps st))
       = aggregator_calls (events st)"
  by (induction sweeps arbitrary: st) (simp_all add: metropolis_at_frame)

lemma production_frame:
  assumes "n_sweeps_btw_cooling \<noteq> 0" and "sized (nat n_cooling_sweeps) st"
  shows "\<exists>st'. production mc n_lattice n_sweeps_btw_cooling n_cooling_sweeps x_addr sweeps st
                 = Inr st'
           \<and> sized (nat n_cooling_sweeps) st'
           \<and> n_cooling st \<le> n_cooling st'
           \<and> (0 \<in> set sweeps \<longrightarrow> n_cooling st < n_cooling st')
           \<and> aggregator_calls (events st') = aggregator_calls (events st)"
  using assms(2)
proof (induction sweeps arbitrary: st)
  case Nil
  then show ?case by simp
next
  case (Cons i_mc rest)
  let ?st1 = "metropolis_at mc x_addr st"
  have s1: "sized (nat n_cooling_sweeps) ?st1"
    using Cons.prems by (simp add: metropolis_at_frame)
  show ?case
  proof (cases "int i_mc mod n_sweeps_btw_cooling = 0")
    case True
    from cooling_event_frame[OF s1, of mc n_lattice x_addr]
    obtain st2 where st2: "cooling_event mc n_lattice n_cooling_sweeps x_addr ?st1 = Inr st2"
      "sized (nat n_cooling_sweeps) st2" "n_cooling st2 = n_cooling ?st1 + 1"
      "aggregator_calls (events st2) = aggregator_calls (events ?st1)"
      by blast
    from Cons.IH[OF st2(2)]
    obtain st' where st': "production mc n_lattice n_sweeps_btw_cooling n_cooling_sweeps
        x_addr rest st2 = Inr st'"
      "sized (nat n_cooling_sweeps) st'" "n_cooling st2 \<le> n_cooling st'"
      "aggregator_calls (events st') = aggregator_calls (events st2)"
      by blast
    have step: "production mc n_lattice n_sweeps_btw_cooling n_cooling_sweeps x_addr
        (i_mc # rest) st = Inr st'"
      using True assms(1) st2(1) st'(1) by (simp add: Let_def)
    have "n_cooling st < n_cooling st'"
      using st2(3) st'(3) by (simp add: metropolis_at_frame)
    with step st'(2,4) st2(4) show ?thesis
      by (intro exI[of _ st']) (simp add: metropolis_at_frame)
  next
    case False
    then have nz: "i_mc \<noteq> 0" by (intro notI) simp
    from Cons.IH[OF s1]
    obtain st' where st': "production mc n_lattice n_sweeps_btw_cooling n_cooling_sweeps
        x_addr rest ?st1 = Inr st'"
      "sized (nat n_cooling_sweeps) st'" "n_cooling ?st1 \<le> n_cooling st'"
      "0 \<in> set rest \<longrightarrow> n_cooling ?st1 < n_cooling st'"
      "aggregator_calls (events st') = aggregator_calls (events ?st1)"
      by blast
    have step: "production mc n_lattice n_sweeps_btw_cooling n_cooling_sweeps x_addr
        (i_mc # rest) st = Inr st'"
      using False assms(1) st'(1) by (simp add: Let_def)
    with st'(2,3,4,5) nz show ?thesis
      by (intro exI[of _ st']) (simp add: metropolis_at_frame)
  qed
qed

lemma minimum_run_calls:
  assumes "n_sweeps_btw_cooling \<noteq> 0" and "0 \<le> n_cooling_sweeps" and "n_equil < n_mc_sweeps"
  shows "\<exists>st' k. minimum_run mc n_lattice n_equil n_mc_sweeps i_cold n_sweeps_btw_cooling
                   n_cooling_sweeps i_minimum st = Inr st'
           \<and> 1 \<le> k
           \<and> aggregator_calls (events st') = aggregator_calls (events st) @ [k, k]"
proof -
  let ?st0 = "st\<lparr>n_cooling := 0,
      params := (params st)\<lparr>x_potential_minimum := 14 / 10 + 1 / 10 * real i_minimum\<rparr>\<rparr>"
  obtain x0 g0 where init: "initialize_lattice mc n_lattice i_cold (generator ?st0) = (x0, g0)"
    by (cases "initialize_lattice mc n_lattice i_cold (generator ?st0)") auto
  let ?x_addr = "length (store ?st0)"
  let ?st1 = "?st0\<lparr>store := store ?st0 @ [x0], generator := g0\<rparr>"
  let ?zi = "replicate (nat n_cooling_sweeps) (0 :: int)"
  let ?zr = "replicate (nat n_cooling_sweeps) (0 :: real)"
  let ?st2 = "?st1\<lparr>n_total_instantons_sum := ?zi, n2_total_instantons_sum := ?zi,
      action_cooling := ?zr, action2_cooling := ?zr\<rparr>"
  let ?st3 = "equilibration mc ?x_addr [0..<nat n_equil] ?st2"
  have z: "np_zeros_int n_cooling_sweeps = Inr ?zi" "np_zeros n_cooling_sweeps = Inr ?zr"
    using assms(2) by (simp_all add: np_zeros_int_def np_zeros_def)
  have s2: "sized (nat n_cooling_sweeps) ?st2" by (simp add: sized_def)
  have s3: "sized (nat n_cooling_sweeps) ?st3"
    using s2 by (simp only: equilibration_frame)
  have zero_in: "0 \<in> set [0..<nat (n_mc_sweeps - n_equil)]" using assms(3) by simp
  from production_frame[OF assms(1) s3, of mc n_lattice ?x_addr
      "[0..<nat (n_mc_sweeps - n_equil)]"] zero_in
  obtain st4 where st4: "production mc n_lattice n_sweeps_btw_cooling n_cooling_sweeps ?x_addr
      [0..<nat (n_mc_sweeps - n_equil)] ?st3 = Inr st4"
    "n_cooling ?st3 < n_cooling st4"
    "aggregator_calls (events st4) = aggregator_calls (events ?st3)"
    by blast
  have pos: "n_cooling st4 \<noteq> 0" using st4(2) by simp
  let ?st5 = "st4\<lparr>events := events st4 @ [Aggregator_call (n_cooling st4)]\<rparr>"
  let ?st6 = "?st5\<lparr>events := events ?st5 @ [Aggregator_call (n_cooling ?st5)]\<rparr>"
  have a1: "\<exists>r. stat_av_var (action_cooling ?st5) (action2_cooling ?st5) (n_cooling ?st5)
      = Inr r"
    using pos by (simp add: stat_av_var_def)
  have a2: "\<exists>r. stat_av_var (map real_of_int (n_total_instantons_sum ?st6))
      (map real_of_int (n2_total_instantons_sum ?st6)) (n_cooling ?st6) = Inr r"
    using pos by (simp add: stat_av_var_def)
  from a1 obtain r1 where r1: "stat_av_var (action_cooling ?st5) (action2_cooling ?st5)
      (n_cooling ?st5) = Inr r1" ..
  from a2 obtain r2 where r2: "stat_av_var (map real_of_int (n_total_instantons_sum ?st6))
      (map real_of_int (n2_total_instantons_sum ?st6)) (n_cooling ?st6) = Inr r2" ..
  have run: "minimum_run mc n_lattice n_equil n_mc_sweeps i_cold n_sweeps_btw_cooling
      n_cooling_sweeps i_minimum st = Inr ?st6"
    unfolding minimum_run_def Let_def init prod.case z raise_with_Inr py_then_Inr st4(1) r1 r2
    by (rule refl)
  have calls: "aggregator_calls (events ?st6)
      = aggregator_calls (events st) @ [n_cooling st4, n_cooling st4]"
    using st4(3) by (simp add: equilibration_frame)
  from run calls pos show ?thesis
    by (intro exI[of _ ?st6] exI[of _ "n_cooling st4"]) simp
qed

lemma minima_loop_calls:
  assumes "n_sweeps_btw_cooling \<noteq> 0" and "0 \<le> n_cooling_sweeps" and "n_equil < n_mc_sweeps"
    and "\<forall>k \<in> set (aggregator_calls (events st)). 1 \<le> k"
  shows "\<exists>st'. minima_loop mc n_lattice n_equil n_mc_sweeps i_cold n_sweeps_btw_cooling
                 n_cooling_sweeps minima st = Inr st'
           \<and> (\<forall>k \<in> set (aggregator_calls (events st')). 1 \<le> k)"
  using assms(4)
proof (induction minima arbitrary: st)
  case Nil
  then show ?case by simp
next
  case (Cons i_minimum rest)
  from minimum_run_calls[OF assms(1,2,3), of mc n_lattice i_cold i_minimum st]
  obtain st1 k where st1: "minimum_run mc n_lattice n_equil n_mc_sweeps i_cold
      n_sweeps_btw_cooling n_cooling_sweeps i_minimum st = Inr st1" "1 \<le> k"
    "aggregator_calls (events st1) = aggregator_calls (events st) @ [k, k]"
    by blast
  with Cons.prems have "\<forall>k \<in> set (aggregator_calls (events st1)). 1 \<le> k" by simp
  from Cons.IH[OF this] st1(1) show ?case by simp
qed

lemma upt_nat_small: "[0..<nat 1] = [0]" "[0..<nat 2] = [0, 1]" "[0..<nat 0] = []"
  by (simp_all add: upt_rec)

section \<open>The claims\<close>

text \<open>
  C8, as amended. The scan for removed eigenvalues does not return for some
  inputs, sorted ones among them: it returns exactly when the first eigenvalue
  that is not negative, if there is one, is greater than \<open>1e-5\<close>. An eigenvalue
  in the closed interval from \<open>0\<close> to \<open>1e-5\<close> met first makes the loop go round
  forever without changing its state.
\<close>

theorem removal_loop_termination:
  "(removed_indices evs = None) =
     (case first_non_negative evs 0 of None \<Rightarrow> False | Some e \<Rightarrow> e \<le> 1 / 100000)"
  by (rule removed_indices_None_iff)

theorem removal_loop_termination_witness:
  "removed_indices [- 1, 0, 3] = None \<and> removed_indices [- 1, 2] \<noteq> None"
  using removal_loop_termination [of "[- 1, 0, 3]"] removal_loop_termination [of "[- 1, 2]"]
  by (simp add: first_non_negative_def)

text \<open>
  C8 as stated fails: it says the loop would always return on a monotonically
  increasing sequence. The sorted sequence \<open>[0, 1]\<close> is a sequence on which the
  loop never returns.
\<close>

theorem removal_loop_sorted_counterexample:
  "sorted [0, 1 :: real] \<and> removed_indices [0, 1] = None"
  by (simp add: removed_indices_None_iff first_non_negative_def)

text \<open>
  C9. The histogram loop over the returned centers reads only inside the array
  exactly when the number of centers is even; for an odd number the read of
  \<open>tau_centers_ia[i+1]\<close> in the last round is at the index equal to the size of
  the array, one past its end, and NumPy raises \<open>IndexError\<close>. So when the
  sampling step returns as many centers as it is asked for and \<open>n_ia\<close> is odd, the
  first sweep of the driver ends with that \<open>IndexError\<close>.
\<close>

theorem zcr_hist_in_bounds_iff_even:
  "((\<exists>out'. zcr_hist tau_centers_ia period out = Inr out') = even (length tau_centers_ia))
   \<and> (odd (length tau_centers_ia) \<longrightarrow>
        zcr_hist tau_centers_ia period out
          = Inl (IndexError (int (length tau_centers_ia)) (length tau_centers_ia)))
   \<and> ((\<forall>n p m t xs x2s r. length (fst (step n p m t xs x2s r)) = nat n)
        \<and> odd n_ia \<and> 0 < n_ia \<longrightarrow>
        snd (rilm_sweep_loop step n_ia n_points n_meas tau_array period (i_mc # rest) calls st)
          = Inl (IndexError n_ia (nat n_ia)))"
proof (intro conjI impI)
  show "(\<exists>out'. zcr_hist tau_centers_ia period out = Inr out') = even (length tau_centers_ia)"
  proof (cases "even (length tau_centers_ia)")
    case True
    with zcr_hist_even[OF True] show ?thesis by simp
  next
    case False
    with zcr_hist_odd[OF False] show ?thesis by simp
  qed
next
  assume "odd (length tau_centers_ia)"
  then show "zcr_hist tau_centers_ia period out
      = Inl (IndexError (int (length tau_centers_ia)) (length tau_centers_ia))"
    by (rule zcr_hist_odd)
next
  assume h: "(\<forall>n p m t xs x2s r. length (fst (step n p m t xs x2s r)) = nat n)
      \<and> odd n_ia \<and> 0 < n_ia"
  then show "snd (rilm_sweep_loop step n_ia n_points n_meas tau_array period (i_mc # rest)
      calls st) = Inl (IndexError n_ia (nat n_ia))"
    by (intro rilm_sweep_loop_odd_raises) simp_all
qed

theorem zcr_hist_in_bounds_iff_even_witness:
  "zcr_hist [1, 3, 4] 10 [] = Inl (IndexError 3 3)
   \<and> (\<exists>out'. zcr_hist [1, 3, 4, 8] 10 [] = Inr out')
   \<and> snd (rilm_sweep_loop (\<lambda>n p m t xs x2s (r :: unit). (replicate (nat n) 0, xs, x2s, r))
            3 20 5 [0, 1] 10 [0, 1] []
            \<lparr>x_cor_sums = [], x2_cor_sums = [], hist_file = [], rng = ()\<rparr>)
       = Inl (IndexError 3 3)"
  using
    zcr_hist_in_bounds_iff_even [where tau_centers_ia = "[1, 3, 4]" and period = 10
      and out = "[]"
      and step = "\<lambda>n p m t xs x2s (r :: unit). (replicate (nat n) 0, xs, x2s, r)"
      and n_ia = 3 and n_points = 20 and n_meas = 5 and tau_array = "[0, 1]" and i_mc = 0
      and rest = "[1]" and calls = "[]"
      and st = "\<lparr>x_cor_sums = [], x2_cor_sums = [], hist_file = [], rng = ()\<rparr>"]
    zcr_hist_in_bounds_iff_even [where tau_centers_ia = "[1, 3, 4, 8]" and period = 10
      and out = "[]"
      and step = "\<lambda>n p m t xs x2s (r :: unit). (replicate (nat n) 0, xs, x2s, r)"
      and n_ia = 3 and n_points = 20 and n_meas = 5 and tau_array = "[0, 1]" and i_mc = 0
      and rest = "[1]" and calls = "[]"
      and st = "\<lparr>x_cor_sums = [], x2_cor_sums = [], hist_file = [], rng = ()\<rparr>"]
  by simp





text \<open>
  C5. A step of the streamline evolution on a padded configuration computes, at
  every interior site \<open>i\<close>, the gradient
  \<open>- 1/2 * ((- x[i+2] + 16 x[i+1] - 30 x[i] + 16 x[i-1] - x[i-2]) / (12 dtau\<^sup>2))
  + 4 x[i] (x[i]\<^sup>2 - x_potential_minimum\<^sup>2)\<close> from the configuration before the
  update, moves the site by \<open>- gradient * stream_time_step\<close>, and then sets the two
  ghost points on each side to the value of the nearest site. The sizes of the
  arrays are kept, so the same holds at the next step.
\<close>

theorem streamline_step_gradient_update:
  assumes "1 \<le> n"
    and "length (x_config st) = 2 * n + 4"
    and "length (lambda_derivative st) = 2 * n"
    and "length (action_density st) = 2 * n"
  shows "\<exists>st'. streamline_step mc ip stream_time_step (int n) s0 i_s st = Inr st'
           \<and> length (x_config st') = 2 * n + 4
           \<and> length (lambda_derivative st') = 2 * n
           \<and> length (action_density st') = 2 * n
           \<and> (\<forall>i. 2 \<le> i \<and> i < 2 * n + 2 \<longrightarrow>
                 lambda_derivative st' ! (i - 2) = local_gradient ip (x_config st) i
                 \<and> x_config st' ! i
                     = x_config st ! i - local_gradient ip (x_config st) i * stream_time_step)
           \<and> x_config st' ! 0 = x_config st' ! 2
           \<and> x_config st' ! 1 = x_config st' ! 2
           \<and> x_config st' ! (2 * n + 2) = x_config st' ! (2 * n + 1)
           \<and> x_config st' ! (2 * n + 3) = x_config st' ! (2 * n + 1)"
proof -
  from streamline_step_result[OF assms, of mc ip stream_time_step s0 i_s]
  obtain st' where "streamline_step mc ip stream_time_step (int n) s0 i_s st = Inr st'"
    "length (x_config st') = 2 * n + 4"
    "length (lambda_derivative st') = 2 * n"
    "length (action_density st') = 2 * n"
    "\<forall>i. 2 \<le> i \<and> i < 2 * n + 2 \<longrightarrow>
       lambda_derivative st' ! (i - 2) = local_gradient ip (x_config st) i
       \<and> x_config st' ! i
           = x_config st ! i - local_gradient ip (x_config st) i * stream_time_step"
    "x_config st' ! 0 = x_config st' ! 2"
    "x_config st' ! 1 = x_config st' ! 2"
    "x_config st' ! (2 * n + 2) = x_config st' ! (2 * n + 1)"
    "x_config st' ! (2 * n + 3) = x_config st' ! (2 * n + 1)"
    by blast
  then show ?thesis by blast
qed

theorem streamline_step_gradient_update_witness:
  "\<exists>st'. streamline_step
            \<lparr>initialize_lattice = (\<lambda>n c (r :: unit). ([], r)),
              metropolis_question = (\<lambda>ip x r. (x, r)),
              configuration_cooling = (\<lambda>ip x v r. (x, r)),
              find_instantons = (\<lambda>x n d. (1, 1, [1], [3])),
              return_action = (\<lambda>ip x. 10)\<rparr>
            \<lparr>x_potential_minimum = 1, dtau = 1, action_0 = 4 / 3\<rparr> (1 / 10) (int 1)
            (4 / 3) 0
            \<lparr>x_config = [0, 0, 0, 1, 1, 1], lambda_derivative = [0, 0],
              action_density = [0, 0], writers = ([], [])\<rparr> = Inr st'
         \<and> lambda_derivative st' = [- 5 / 8, 5 / 8]
         \<and> x_config st' ! 2 = 1 / 16 \<and> x_config st' ! 3 = 15 / 16
         \<and> x_config st' ! 0 = 1 / 16 \<and> x_config st' ! 1 = 1 / 16
         \<and> x_config st' ! 4 = 15 / 16 \<and> x_config st' ! 5 = 15 / 16"
proof -
  let ?mc = "\<lparr>initialize_lattice = (\<lambda>(n :: int) (c :: bool) (r :: unit). ([] :: real list, r)),
              metropolis_question = (\<lambda>ip x r. (x, r)),
              configuration_cooling = (\<lambda>ip x v r. (x, r)),
              find_instantons = (\<lambda>x n d. (1, 1, [1], [3])),
              return_action = (\<lambda>ip x. 10)\<rparr>"
  let ?ip = "\<lparr>x_potential_minimum = 1, dtau = 1, action_0 = 4 / 3\<rparr>"
  let ?st = "\<lparr>x_config = [0, 0, 0, 1, 1, 1], lambda_derivative = [0, 0],
              action_density = [0, 0], writers = ([], [])\<rparr>"
  from streamline_step_gradient_update[of 1 ?st ?mc ?ip "1 / 10" "4 / 3" 0]
  obtain st' where st': "streamline_step ?mc ?ip (1 / 10) (int 1) (4 / 3) 0 ?st = Inr st'"
    "length (lambda_derivative st') = 2"
    "\<forall>i. 2 \<le> i \<and> i < 4 \<longrightarrow>
       lambda_derivative st' ! (i - 2) = local_gradient ?ip (x_config ?st) i
       \<and> x_config st' ! i = x_config ?st ! i - local_gradient ?ip (x_config ?st) i * (1 / 10)"
    "x_config st' ! 0 = x_config st' ! 2"
    "x_config st' ! 1 = x_config st' ! 2"
    "x_config st' ! 4 = x_config st' ! 3"
    "x_config st' ! 5 = x_config st' ! 3"
    by auto
  have g2: "local_gradient ?ip [0, 0, 0, 1, 1, 1] 2 = - 5 / 8"
    and g3: "local_gradient ?ip [0, 0, 0, 1, 1, 1] 3 = 5 / 8"
    by (simp_all add: local_gradient_def numeral_3_eq_3 numeral_2_eq_2)
  from st'(3) have a2: "lambda_derivative st' ! 0 = - 5 / 8 \<and> x_config st' ! 2 = 1 / 16"
    by (elim allE[of _ 2]) (simp add: g2)
  from st'(3) have a3: "lambda_derivative st' ! 1 = 5 / 8 \<and> x_config st' ! 3 = 15 / 16"
    by (elim allE[of _ 3]) (simp add: g3)
  have lam: "lambda_derivative st' = [- 5 / 8, 5 / 8]"
  proof (rule nth_equalityI)
    show "length (lambda_derivative st') = length [- 5 / 8, 5 / 8 :: real]"
      using st'(2) by simp
    fix i assume "i < length (lambda_derivative st')"
    with st'(2) have "i = 0 \<or> i = 1" by auto
    with a2 a3 show "lambda_derivative st' ! i = [- 5 / 8, 5 / 8] ! i" by auto
  qed
  have x0: "x_config st' ! 0 = 1 / 16" "x_config st' ! 1 = 1 / 16"
    using st'(4,5) a2 by simp_all
  have x4: "x_config st' ! 4 = 15 / 16" "x_config st' ! 5 = 15 / 16"
    using st'(6,7) a3 by simp_all
  have x2: "x_config st' ! 2 = 1 / 16" "x_config st' ! 3 = 15 / 16"
    using a2 a3 by simp_all
  from st'(1) lam x2 x0 x4 show ?thesis by blast
qed




text \<open>
  C6. For \<open>n_samples \<ge> 1\<close> and parallel sequences of sums and sums of squares,
  \<open>stat_av_var\<close> returns per bin the mean \<open>sum / n_samples\<close> and the error
  \<open>sqrt(max(0, sumsq / n_samples - mean\<^sup>2) / n_samples)\<close>. For the two samples
  \<open>a\<close> and \<open>b\<close> the mean is \<open>(a + b) / 2\<close> and the error \<open>|a - b| / (2 sqrt 2)\<close>; for
  \<open>n\<close> equal samples in every bin the means are the samples and all errors are \<open>0\<close>.
\<close>

theorem stat_av_var_formula:
  "(1 \<le> n \<and> length obs = length obs2 \<longrightarrow>
      (\<exists>means errs. stat_av_var obs obs2 n = Inr (means, errs)
         \<and> length means = length obs \<and> length errs = length obs
         \<and> (\<forall>i < length obs.
               means ! i = obs ! i / real n
               \<and> errs ! i = sqrt (max 0 (obs2 ! i / real n - (means ! i)\<^sup>2) / real n))))
   \<and> stat_av_var [a + b] [a\<^sup>2 + b\<^sup>2] 2 = Inr ([(a + b) / 2], [\<bar>a - b\<bar> / (2 * sqrt 2)])
   \<and> (1 \<le> n \<longrightarrow>
        stat_av_var (map (\<lambda>a. real n * a) samples) (map (\<lambda>a. real n * a\<^sup>2) samples) n
          = Inr (samples, replicate (length samples) 0))"
proof (intro conjI impI)
  assume h: "1 \<le> n \<and> length obs = length obs2"
  let ?means = "map (\<lambda>s. s / real n) obs"
  let ?errs = "map2 (\<lambda>s q. sqrt (max 0 (q / real n - (s / real n)\<^sup>2) / real n)) obs obs2"
  from h have r: "stat_av_var obs obs2 n = Inr (?means, ?errs)"
    by (simp add: stat_av_var_def)
  have "\<forall>i < length obs.
      ?means ! i = obs ! i / real n
      \<and> ?errs ! i = sqrt (max 0 (obs2 ! i / real n - (?means ! i)\<^sup>2) / real n)"
    using h by simp
  with r h show "\<exists>means errs. stat_av_var obs obs2 n = Inr (means, errs)
         \<and> length means = length obs \<and> length errs = length obs
         \<and> (\<forall>i < length obs.
               means ! i = obs ! i / real n
               \<and> errs ! i = sqrt (max 0 (obs2 ! i / real n - (means ! i)\<^sup>2) / real n))"
    by (intro exI[of _ ?means] exI[of _ ?errs]) simp
next
  show "stat_av_var [a + b] [a\<^sup>2 + b\<^sup>2] 2 = Inr ([(a + b) / 2], [\<bar>a - b\<bar> / (2 * sqrt 2)])"
    using two_sample_error[of a b] by (simp add: stat_av_var_def)
next
  assume n: "1 \<le> n"
  have "map2 (\<lambda>s q. sqrt (max 0 (q / real n - (s / real n)\<^sup>2) / real n))
          (map (\<lambda>a. real n * a) samples) (map (\<lambda>a. real n * a\<^sup>2) samples)
        = replicate (length samples) 0"
    using n by (induction samples) simp_all
  moreover have "map (\<lambda>s. s / real n) (map (\<lambda>a. real n * a) samples) = samples"
    using n by (induction samples) simp_all
  ultimately show "stat_av_var (map (\<lambda>a. real n * a) samples)
      (map (\<lambda>a. real n * a\<^sup>2) samples) n = Inr (samples, replicate (length samples) 0)"
    using n by (simp add: stat_av_var_def)
qed

theorem stat_av_var_formula_witness:
  "stat_av_var [3, 10] [5, 50] 2 = Inr ([3 / 2, 5], [1 / (2 * sqrt 2), 0])
   \<and> stat_av_var [1 + 2] [1\<^sup>2 + 2\<^sup>2] 2 = Inr ([(1 + 2) / 2], [\<bar>1 - 2\<bar> / (2 * sqrt 2)])
   \<and> stat_av_var (map (\<lambda>a. real 3 * a) [7, 8]) (map (\<lambda>a. real 3 * a\<^sup>2) [7, 8]) 3
       = Inr ([7, 8], replicate (length [7 :: real, 8]) 0)"
proof -
  from stat_av_var_formula[of 2 "[3, 10]" "[5, 50]" 1 2 "[]"]
  obtain means errs where m: "stat_av_var [3, 10] [5, 50] 2 = Inr (means, errs)"
    "length means = 2" "length errs = 2"
    "\<forall>i < 2. means ! i = [3, 10] ! i / real 2
       \<and> errs ! i = sqrt (max 0 ([5, 50] ! i / real 2 - (means ! i)\<^sup>2) / real 2)"
    by auto
  from m(4) have m0: "means ! 0 = 3 / 2" by (elim allE[of _ 0]) simp
  from m(4) have "errs ! 0 = sqrt (max 0 (5 / 2 - (means ! 0)\<^sup>2) / 2)"
    by (elim allE[of _ 0]) simp
  with m0 have i0: "means ! 0 = 3 / 2 \<and> errs ! 0 = sqrt (max 0 (5 / 2 - (3 / 2)\<^sup>2) / 2)"
    by (simp only:)
  from m(4) have m1: "means ! 1 = 5" by (elim allE[of _ 1]) simp
  from m(4) have "errs ! 1 = sqrt (max 0 (50 / 2 - (means ! 1)\<^sup>2) / 2)"
    by (elim allE[of _ 1]) simp
  with m1 have i1: "means ! 1 = 5 \<and> errs ! 1 = sqrt (max 0 (50 / 2 - 5\<^sup>2) / 2)"
    by (simp only:)
  have e0: "sqrt (max 0 (5 / 2 - (3 / 2)\<^sup>2) / 2) = 1 / (2 * sqrt 2)"
    using two_sample_error[of 1 2] by (simp add: power2_eq_square)
  have e1: "sqrt (max 0 (50 / 2 - 5\<^sup>2) / 2) = 0" by simp
  have means: "means = [3 / 2, 5]"
  proof (rule nth_equalityI)
    show "length means = length [3 / 2, 5 :: real]" using m(2) by simp
    fix i assume "i < length means"
    with m(2) have "i = 0 \<or> i = 1" by auto
    with i0 i1 show "means ! i = [3 / 2, 5] ! i" by auto
  qed
  have errs: "errs = [1 / (2 * sqrt 2), 0]"
  proof (rule nth_equalityI)
    show "length errs = length [1 / (2 * sqrt 2), 0 :: real]" using m(3) by simp
    fix i assume "i < length errs"
    with m(3) have "i = 0 \<or> i = 1" by auto
    with i0 i1 e0 e1 show "errs ! i = [1 / (2 * sqrt 2), 0] ! i" by auto
  qed
  from stat_av_var_formula[of 3 "[]" "[]" 1 2 "[7, 8]"]
  have w: "stat_av_var [1 + 2] [1\<^sup>2 + 2\<^sup>2] 2 = Inr ([(1 + 2) / 2], [\<bar>1 - 2\<bar> / (2 * sqrt 2)])"
    "stat_av_var (map (\<lambda>a. real 3 * a) [7, 8]) (map (\<lambda>a. real 3 * a\<^sup>2) [7, 8]) 3
       = Inr ([7, 8], replicate (length [7 :: real, 8]) 0)"
    by simp_all
  from m(1) means errs w show ?thesis by simp
qed


text \<open>
  C4, as amended. When \<open>n_mc_sweeps < n_equil\<close> the driver prints its diagnostic
  and returns \<open>1\<close> without a single Metropolis sweep. When
  \<open>n_mc_sweeps > n_equil\<close>, with a non-zero cooling cadence and non-negative
  \<open>n_cooling_sweeps\<close> and \<open>n_minima\<close>, it returns \<open>0\<close> and every sample count
  passed to the aggregator is at least \<open>1\<close>: the first sweep after equilibration
  always starts a cooling event.
\<close>

theorem cooled_validation:
  "(n_mc_sweeps < n_equil \<longrightarrow>
      cooled_monte_carlo_density mc ip n_lattice n_equil n_mc_sweeps i_cold
        n_sweeps_btw_cooling n_cooling_sweeps n_minima g = Inr (1, [Too_few_sweeps]))
   \<and> (n_equil < n_mc_sweeps \<and> n_sweeps_btw_cooling \<noteq> 0 \<and> 0 \<le> n_cooling_sweeps
        \<and> 0 \<le> n_minima \<longrightarrow>
        (\<exists>evs. cooled_monte_carlo_density mc ip n_lattice n_equil n_mc_sweeps i_cold
                  n_sweeps_btw_cooling n_cooling_sweeps n_minima g = Inr (0, evs)
           \<and> (\<forall>k \<in> set (aggregator_calls evs). 1 \<le> k)))"
proof (intro conjI impI)
  assume "n_mc_sweeps < n_equil"
  then show "cooled_monte_carlo_density mc ip n_lattice n_equil n_mc_sweeps i_cold
        n_sweeps_btw_cooling n_cooling_sweeps n_minima g = Inr (1, [Too_few_sweeps])"
    by (simp add: cooled_monte_carlo_density_def)
next
  assume h: "n_equil < n_mc_sweeps \<and> n_sweeps_btw_cooling \<noteq> 0 \<and> 0 \<le> n_cooling_sweeps
        \<and> 0 \<le> n_minima"
  let ?init = "\<lparr>params = ip, store = [], generator = g, n_cooling = 0,
      n_total_instantons_sum = [], n2_total_instantons_sum = [],
      action_cooling = [], action2_cooling = [], events = []\<rparr>"
  have "\<forall>k \<in> set (aggregator_calls (events ?init)). 1 \<le> k" by simp
  from minima_loop_calls[of n_sweeps_btw_cooling n_cooling_sweeps n_equil n_mc_sweeps ?init
      mc n_lattice i_cold "[0..<nat n_minima]", OF _ _ _ this] h
  obtain st' where st': "minima_loop mc n_lattice n_equil n_mc_sweeps i_cold
      n_sweeps_btw_cooling n_cooling_sweeps [0..<nat n_minima] ?init = Inr st'"
    "\<forall>k \<in> set (aggregator_calls (events st')). 1 \<le> k"
    by blast
  have z: "np_zeros n_minima = Inr (replicate (nat n_minima) 0)"
    using h by (simp add: np_zeros_def)
  have "cooled_monte_carlo_density mc ip n_lattice n_equil n_mc_sweeps i_cold
      n_sweeps_btw_cooling n_cooling_sweeps n_minima g = Inr (0, events st')"
    using h by (simp add: cooled_monte_carlo_density_def z st'(1))
  with st'(2) show "\<exists>evs. cooled_monte_carlo_density mc ip n_lattice n_equil n_mc_sweeps
      i_cold n_sweeps_btw_cooling n_cooling_sweeps n_minima g = Inr (0, evs)
           \<and> (\<forall>k \<in> set (aggregator_calls evs). 1 \<le> k)"
    by blast
qed

theorem cooled_validation_witness:
  "cooled_monte_carlo_density still_mc
      \<lparr>x_potential_minimum = 14 / 10, dtau = 5 / 100, action_0 = 4 / 3 * (14 / 10) ^ 3\<rparr>
      4 2 1 False 20 10 12 () = Inr (1, [Too_few_sweeps])
   \<and> cooled_monte_carlo_density still_mc
      \<lparr>x_potential_minimum = 14 / 10, dtau = 5 / 100, action_0 = 4 / 3 * (14 / 10) ^ 3\<rparr>
      4 1 3 False 2 1 1 ()
       = Inr (0, [Metropolis_sweep, Metropolis_sweep, Cooling_sweep, Metropolis_sweep,
                  Aggregator_call 1, Aggregator_call 1])"
  using
    cooled_validation [of 1 2 still_mc
      "\<lparr>x_potential_minimum = 14 / 10, dtau = 5 / 100, action_0 = 4 / 3 * (14 / 10) ^ 3\<rparr>"
      4 False 20 10 12 "()"]
    cooled_validation [of 3 1 still_mc
      "\<lparr>x_potential_minimum = 14 / 10, dtau = 5 / 100, action_0 = 4 / 3 * (14 / 10) ^ 3\<rparr>"
      4 False 2 1 1 "()"]
  by (simp add: cooled_monte_carlo_density_def minimum_run_def still_mc_def cooling_event_def
      metropolis_at_def np_zeros_def np_zeros_int_def np_add_at_def np_get_def np_set_def
      np_index_def stat_av_var_def upt_nat_small upt_small Let_def)

text \<open>
  C4 as stated fails where \<open>n_mc_sweeps = n_equil\<close>: the validation passes, no
  sweep follows equilibration, no cooling event takes place, the aggregator is
  called with \<open>n_cooling = 0\<close>, and the driver does not return \<open>0\<close>.
\<close>

theorem cooled_zero_samples_counterexample:
  "cooled_monte_carlo_density still_mc
      \<lparr>x_potential_minimum = 14 / 10, dtau = 5 / 100, action_0 = 4 / 3 * (14 / 10) ^ 3\<rparr>
      4 2 2 False 20 10 1 ()
     = Inl (ZeroDivisionError, [Metropolis_sweep, Metropolis_sweep, Aggregator_call 0])"
  by (simp add: cooled_monte_carlo_density_def minimum_run_def still_mc_def
      metropolis_at_def np_zeros_def np_zeros_int_def stat_av_var_def upt_nat_small upt_small
      Let_def)

text \<open>
  C10. A cooling event works on a copy: \<open>np.copy\<close> allocates a new array, every
  cooling sweep writes to that array alone, and the detection and the action
  measurement only read it. The event returns, and the array \<open>x_config\<close> of the
  Metropolis chain, like every array that existed before the event, holds the
  values it held before.
\<close>

theorem cooling_event_keeps_x_config:
  assumes "sized (nat n_cooling_sweeps) st" and "x_addr < length (store st)"
  shows "\<exists>st'. cooling_event mc n_lattice n_cooling_sweeps x_addr st = Inr st'
           \<and> store st' ! x_addr = store st ! x_addr
           \<and> (\<forall>a < length (store st). store st' ! a = store st ! a)"
proof -
  from cooling_event_frame[OF assms(1), of mc n_lattice x_addr]
  obtain st' where st': "cooling_event mc n_lattice n_cooling_sweeps x_addr st = Inr st'"
    "\<forall>a < length (store st). store st' ! a = store st ! a"
    by blast
  with assms(2) show ?thesis by blast
qed

theorem cooling_event_keeps_x_config_witness:
  "\<exists>st'. cooling_event halving_mc 2 1 0
            \<lparr>params = \<lparr>x_potential_minimum = 14 / 10, dtau = 5 / 100,
                        action_0 = 4 / 3 * (14 / 10) ^ 3\<rparr>,
              store = [[1, 2, 1]], generator = (), n_cooling = 0,
              n_total_instantons_sum = [0], n2_total_instantons_sum = [0],
              action_cooling = [0], action2_cooling = [0], events = []\<rparr> = Inr st'
         \<and> store st' = [[1, 2, 1], [1 / 2, 1, 1 / 2]]"
proof -
  let ?st = "\<lparr>params = \<lparr>x_potential_minimum = 14 / 10, dtau = 5 / 100,
                        action_0 = 4 / 3 * (14 / 10) ^ 3\<rparr>,
              store = [[1, 2, 1]], generator = (), n_cooling = 0,
              n_total_instantons_sum = [0], n2_total_instantons_sum = [0],
              action_cooling = [0], action2_cooling = [0], events = []\<rparr>"
  have pre: "sized (nat 1) ?st" "0 < length (store ?st)" by (simp_all add: sized_def)
  from cooling_event_keeps_x_config[OF pre, of halving_mc 2]
  obtain st' where st': "cooling_event halving_mc 2 1 0 ?st = Inr st'"
    "store st' ! 0 = store ?st ! 0"
    by blast
  have "cooling_event halving_mc 2 1 0 ?st
      = Inr (?st\<lparr>store := [[1, 2, 1], [1 / 2, 1, 1 / 2]], n_cooling := 1,
                  events := [Cooling_sweep]\<rparr>)"
    by (simp add: cooling_event_def halving_mc_def still_mc_def np_add_at_def np_get_def
        np_set_def np_index_def upt_nat_small upt_small Let_def)
  with st'(1) have "store st' = [[1, 2, 1], [1 / 2, 1, 1 / 2]]" by simp
  with st'(1) show ?thesis by blast
qed


end
